theory Spec2Isabelle
  imports Complex_Main
begin

section \<open>The advection-diffusion residual of ad3.c\<close>

text \<open>
  A shallow embedding of \<^verbatim>\<open>src/c/ch10/ad3.c\<close>. The routines are modelled in exact
  arithmetic: there a C \<^verbatim>\<open>double\<close> is a \<^typ>\<open>real\<close> and a C \<^verbatim>\<open>int\<close> grid index is an
  \<^typ>\<open>int\<close>. The one division whose denominator depends on the field, the smoothness
  ratio of the limiter, is a checked division: a zero denominator is recorded as the
  error \<open>DivisionByZero\<close> and handed on. The other divisions divide by the grid spacings
  and their squares, which depend on the sizes of the grid only.

  Rounding, overflow, infinities and NaN do not exist in the exact model. Where a
  property speaks about them, the limiters and the body of the loop over the faces are
  given a second time, in the arithmetic of IEEE 754 doubles (the type \<open>double\<close> below).
\<close>

subsection \<open>Limiters\<close>

text \<open>Lines 57 to 64, in exact arithmetic.\<close>

definition centered :: "real \<Rightarrow> real" where
  "centered theta = 0.5"

definition vanleer :: "real \<Rightarrow> real" where
  "vanleer theta =
     (let abstheta = \<bar>theta\<bar>
      in 0.5 * (theta + abstheta) / (1.0 + abstheta))"

datatype LimiterType = NONE | CENTERED | VANLEER

text \<open>The table \<^verbatim>\<open>limiterptr\<close>; the null pointer is \<open>None\<close>.\<close>

definition limiterptr :: "LimiterType \<Rightarrow> (real \<Rightarrow> real) option" where
  "limiterptr l = (case l of NONE \<Rightarrow> None | CENTERED \<Rightarrow> Some centered | VANLEER \<Rightarrow> Some vanleer)"

subsection \<open>Context and grid information\<close>

text \<open>
  The struct \<^verbatim>\<open>AdCtx\<close>. The residual routine takes a \<^verbatim>\<open>Ctx*\<close>, a type the file does
  not declare; it reads the fields \<^verbatim>\<open>eps\<close> and \<^verbatim>\<open>limiter_fcn\<close> of it, which
  \<^verbatim>\<open>AdCtx\<close> has.
\<close>

record Ctx =
  eps :: real
  w0 :: real
  a_fcn :: "real \<Rightarrow> real \<Rightarrow> real \<Rightarrow> int \<Rightarrow> real"
  g_fcn :: "real \<Rightarrow> real \<Rightarrow> real \<Rightarrow> int \<Rightarrow> real"
  b_fcn :: "real \<Rightarrow> real \<Rightarrow> real \<Rightarrow> int \<Rightarrow> real"
  limiter_fcn :: "(real \<Rightarrow> real) option"

text \<open>The fields of PETSc's \<^verbatim>\<open>DMDALocalInfo\<close> that the file reads.\<close>

record DMDALocalInfo =
  mx :: int
  my :: int
  mz :: int
  xs :: int
  ys :: int
  zs :: int
  xm :: int
  ym :: int
  zm :: int

text \<open>
  A three-dimensional array \<^verbatim>\<open>double ***\<close> obtained from the grid, read and written
  as \<^verbatim>\<open>a[k][j][i]\<close>: a function of the index triple \<open>(k, j, i)\<close>.
\<close>

type_synonym array3 = "int \<times> int \<times> int \<Rightarrow> real"

subsection \<open>Loops\<close>

text \<open>
  The C loop \<^verbatim>\<open>for (i = lo; i < hi; i++) body\<close> over a state \<open>s\<close>. The loop
  variable is an integer and the bound is fixed, so the loop ends.
\<close>

function for_loop :: "int \<Rightarrow> int \<Rightarrow> (int \<Rightarrow> 's \<Rightarrow> 's) \<Rightarrow> 's \<Rightarrow> 's" where
  "for_loop i hi body s = (if i < hi then for_loop (i + 1) hi body (body i s) else s)"
  by pat_completeness auto
termination
  by (relation "measure (\<lambda>(i, hi, body, s). nat (hi - i))") auto

declare for_loop.simps [simp del]

subsection \<open>Checked division\<close>

datatype fp_error = DivisionByZero

text \<open>Division in the exact model: a zero denominator is the error.\<close>

definition fdiv :: "real \<Rightarrow> real \<Rightarrow> fp_error + real" where
  "fdiv x y = (if y = 0 then Inl DivisionByZero else Inr (x / y))"

subsection \<open>The residual routine FormFunctionLocal\<close>

text \<open>
  The functions \<^verbatim>\<open>a_wind\<close>, \<^verbatim>\<open>g_source\<close> and \<^verbatim>\<open>b_bdry\<close> are called by the routine
  and defined nowhere in the file: they are parameters of the model.
\<close>

type_synonym wind_fn = "real \<Rightarrow> real \<Rightarrow> real \<Rightarrow> int \<Rightarrow> Ctx \<Rightarrow> real"
type_synonym source_fn = "real \<Rightarrow> real \<Rightarrow> real \<Rightarrow> real \<Rightarrow> Ctx \<Rightarrow> real"
type_synonym bdry_fn = "real \<Rightarrow> real \<Rightarrow> Ctx \<Rightarrow> real"

text \<open>
  Lines 177 to 194: the part of the residual at the cell \<open>(k, j, i)\<close> that is not
  advective. It is skipped for the layer \<open>k = zs - 1\<close> below the owned box.
\<close>

definition nonadvective ::
  "source_fn \<Rightarrow> bdry_fn \<Rightarrow> DMDALocalInfo \<Rightarrow> array3 \<Rightarrow> Ctx \<Rightarrow> real \<Rightarrow> real \<Rightarrow> real \<Rightarrow>
   real \<Rightarrow> real \<Rightarrow> real \<Rightarrow> int \<Rightarrow> int \<Rightarrow> int \<Rightarrow> array3 \<Rightarrow> array3" where
  "nonadvective g_source b_bdry info au usr hx2 hy2 hz2 x y z k j i aF =
     (if k \<ge> zs info then
        (if i = mx info - 1 then
           aF((k, j, i) := au (k, j, i) - b_bdry y z usr)
         else if i = 0 \<or> j = 0 \<or> j = my info - 1 then
           aF((k, j, i) := au (k, j, i))
         else
           (let uu = au (k, j, i);
                uE = (if i = mx info - 2 then b_bdry y z usr else au (k, j, i + 1));
                uW = (if i = 1 then 0.0 else au (k, j, i - 1));
                uN = (if j = my info - 2 then 0.0 else au (k, j + 1, i));
                uS = (if j = 1 then 0.0 else au (k, j - 1, i));
                uxx = (uW - 2.0 * uu + uE) / hx2;
                uyy = (uS - 2.0 * uu + uN) / hy2;
                uzz = (au (k - 1, j, i) - 2.0 * uu + au (k + 1, j, i)) / hz2
            in aF((k, j, i) := aF (k, j, i)
                    - (eps usr * (uxx + uyy + uzz) + g_source x y z uu usr))))
      else aF)"

text \<open>
  Lines 201 to 203: the index offsets \<open>(dk, dj, di)\<close> of the direction \<open>q\<close>
  (east, north, top for \<open>q = 0, 1, 2\<close>).
\<close>

definition face_offset :: "int \<Rightarrow> int \<times> int \<times> int" where
  "face_offset q = (if q = 2 then 1 else 0, if q = 1 then 1 else 0, if q = 0 then 1 else 0)"

text \<open>Line 204: the wind \<open>a\<close> at the midpoint of the face.\<close>

definition face_wind ::
  "wind_fn \<Rightarrow> Ctx \<Rightarrow> real \<Rightarrow> real \<Rightarrow> real \<Rightarrow> real \<Rightarrow> real \<Rightarrow> real \<Rightarrow> int \<Rightarrow> real" where
  "face_wind a_wind usr halfx halfy halfz x y z q =
     (case face_offset q of (dk, dj, di) \<Rightarrow>
        a_wind (x + halfx * real_of_int di) (y + halfy * real_of_int dj)
          (z + halfz * real_of_int dk) q usr)"

text \<open>Lines 205, 209 and 211: the values \<open>u_up\<close>, \<open>u_dn\<close> and \<open>u_far\<close>.\<close>

definition upwind_value :: "array3 \<Rightarrow> real \<Rightarrow> int \<Rightarrow> int \<Rightarrow> int \<Rightarrow> int \<Rightarrow> real" where
  "upwind_value au a k j i q =
     (case face_offset q of (dk, dj, di) \<Rightarrow>
        if a \<ge> 0.0 then au (k, j, i) else au (k + dk, j + dj, i + di))"

definition downwind_value :: "array3 \<Rightarrow> real \<Rightarrow> int \<Rightarrow> int \<Rightarrow> int \<Rightarrow> int \<Rightarrow> real" where
  "downwind_value au a k j i q =
     (case face_offset q of (dk, dj, di) \<Rightarrow>
        if a \<ge> 0.0 then au (k + dk, j + dj, i + di) else au (k, j, i))"

definition far_value :: "array3 \<Rightarrow> real \<Rightarrow> int \<Rightarrow> int \<Rightarrow> int \<Rightarrow> int \<Rightarrow> real" where
  "far_value au a k j i q =
     (case face_offset q of (dk, dj, di) \<Rightarrow>
        if a \<ge> 0.0 then au (k - dk, j - dj, i - di)
        else au (k + 2 * dk, j + 2 * dj, i + 2 * di))"

text \<open>
  Lines 204 to 216: the flux through the face of the cell \<open>(k, j, i)\<close> in direction
  \<open>q\<close>. The test \<^verbatim>\<open>usr->limiter_fcn != NULL && deep\<close> is the case distinction on the
  pointer followed by the test of \<open>deep\<close>.
\<close>

definition face_flux ::
  "wind_fn \<Rightarrow> DMDALocalInfo \<Rightarrow> array3 \<Rightarrow> Ctx \<Rightarrow> real \<Rightarrow> real \<Rightarrow> real \<Rightarrow>
   real \<Rightarrow> real \<Rightarrow> real \<Rightarrow> int \<Rightarrow> int \<Rightarrow> int \<Rightarrow> int \<Rightarrow> fp_error + real" where
  "face_flux a_wind info au usr halfx halfy halfz x y z k j i q =
     (let a = face_wind a_wind usr halfx halfy halfz x y z q;
          u_up = upwind_value au a k j i q;
          flux = a * u_up;
          deep = (i > 1 \<and> i < mx info - 2 \<and> j > 1 \<and> j < my info - 2)
      in case limiter_fcn usr of
           None \<Rightarrow> Inr flux
         | Some limiter \<Rightarrow>
             if deep then
               (let u_dn = downwind_value au a k j i q
                in if u_dn \<noteq> u_up then
                     (let u_far = far_value au a k j i q
                      in case fdiv (u_up - u_far) (u_dn - u_up) of
                           Inl e \<Rightarrow> Inl e
                         | Inr theta \<Rightarrow> Inr (flux + a * limiter theta * (u_dn - u_up)))
                   else Inr flux)
             else Inr flux)"

text \<open>
  Lines 218 to 237: the \<^verbatim>\<open>switch (q)\<close> that adds the flux to the residuals of the two
  cells of the face. Its labels are \<open>0\<close>, \<open>1\<close> and \<open>3\<close>, and it has no default.
\<close>

definition accumulate ::
  "DMDALocalInfo \<Rightarrow> real \<Rightarrow> real \<Rightarrow> real \<Rightarrow> int \<Rightarrow> int \<Rightarrow> int \<Rightarrow> int \<Rightarrow> real \<Rightarrow>
   array3 \<Rightarrow> array3" where
  "accumulate info hx hy hz k j i q flux aF =
     (if q = 0 then
        (let aF1 = (if i > 0 then aF((k, j, i) := aF (k, j, i) + flux / hx) else aF)
         in if i < mx info - 1 \<and> i + 1 < xs info + xm info
            then aF1((k, j, i + 1) := aF1 (k, j, i + 1) - flux / hx) else aF1)
      else if q = 1 then
        (let aF1 = (if j > 0 then aF((k, j, i) := aF (k, j, i) + flux / hy) else aF)
         in if j < my info - 1 \<and> j + 1 < ys info + ym info
            then aF1((k, j + 1, i) := aF1 (k, j + 1, i) - flux / hy) else aF1)
      else if q = 3 then
        (let aF1 = (if k \<ge> zs info then aF((k, j, i) := aF (k, j, i) + flux / hz) else aF)
         in if k + 1 < zs info + zm info
            then aF1((k + 1, j, i) := aF1 (k + 1, j, i) - flux / hz) else aF1)
      else aF)"

text \<open>Lines 199 to 238: one pass of the loop over \<open>q\<close>.\<close>

definition flux_step ::
  "wind_fn \<Rightarrow> DMDALocalInfo \<Rightarrow> array3 \<Rightarrow> Ctx \<Rightarrow> real \<Rightarrow> real \<Rightarrow> real \<Rightarrow> real \<Rightarrow> real \<Rightarrow> real \<Rightarrow>
   real \<Rightarrow> real \<Rightarrow> real \<Rightarrow> int \<Rightarrow> int \<Rightarrow> int \<Rightarrow> int \<Rightarrow> fp_error + array3 \<Rightarrow> fp_error + array3" where
  "flux_step a_wind info au usr hx hy hz halfx halfy halfz x y z k j i q s =
     (case s of
        Inl e \<Rightarrow> Inl e
      | Inr aF \<Rightarrow>
          if q < 2 \<and> k < zs info then Inr aF
          else
            (case face_flux a_wind info au usr halfx halfy halfz x y z k j i q of
               Inl e \<Rightarrow> Inl e
             | Inr flux \<Rightarrow> Inr (accumulate info hx hy hz k j i q flux aF)))"

text \<open>Lines 174 to 238: the body of the loop over \<open>i\<close>.\<close>

definition cell_step ::
  "wind_fn \<Rightarrow> source_fn \<Rightarrow> bdry_fn \<Rightarrow> DMDALocalInfo \<Rightarrow> array3 \<Rightarrow> Ctx \<Rightarrow>
   real \<Rightarrow> real \<Rightarrow> real \<Rightarrow> real \<Rightarrow> real \<Rightarrow> int \<Rightarrow> int \<Rightarrow> int \<Rightarrow> fp_error + array3 \<Rightarrow> fp_error + array3" where
  "cell_step a_wind g_source b_bdry info au usr hx hy hz y z k j i s =
     (case s of
        Inl e \<Rightarrow> Inl e
      | Inr aF \<Rightarrow>
          (let halfx = hx / 2.0;
               halfy = hy / 2.0;
               halfz = hz / 2.0;
               hx2 = hx * hx;
               hy2 = hy * hy;
               hz2 = hz * hz;
               x = -1.0 + real_of_int i * hx;
               aF1 = nonadvective g_source b_bdry info au usr hx2 hy2 hz2 x y z k j i aF
           in if i = mx info - 1 \<or> j = my info - 1 then Inr aF1
              else for_loop 0 3
                     (flux_step a_wind info au usr hx hy hz halfx halfy halfz x y z k j i)
                     (Inr aF1)))"

text \<open>Lines 163 to 167: the owned entries of \<open>aF\<close> are set to zero.\<close>

definition clear_F :: "DMDALocalInfo \<Rightarrow> array3 \<Rightarrow> array3" where
  "clear_F info aF =
     for_loop (zs info) (zs info + zm info)
       (\<lambda>k. for_loop (ys info) (ys info + ym info)
          (\<lambda>j. for_loop (xs info) (xs info + xm info)
             (\<lambda>i aF. aF((k, j, i) := 0.0)))) aF"

text \<open>
  The routine. It returns the error code \<open>0\<close> on every path; the model returns the
  array \<open>aF\<close> it leaves, or \<open>DivisionByZero\<close> when a smoothness ratio divided by zero.
\<close>

definition FormFunctionLocal ::
  "wind_fn \<Rightarrow> source_fn \<Rightarrow> bdry_fn \<Rightarrow> DMDALocalInfo \<Rightarrow> array3 \<Rightarrow> array3 \<Rightarrow> Ctx \<Rightarrow>
   fp_error + array3" where
  "FormFunctionLocal a_wind g_source b_bdry info au aF usr =
     (let hx = 2.0 / real_of_int (mx info - 1);
          hy = 2.0 / real_of_int (my info - 1);
          hz = 2.0 / real_of_int (mz info)
      in for_loop (zs info - 1) (zs info + zm info)
           (\<lambda>k. let z = -1.0 + (real_of_int k + 0.5) * hz
                in for_loop (ys info) (ys info + ym info)
                     (\<lambda>j. let y = -1.0 + real_of_int j * hy
                          in for_loop (xs info) (xs info + xm info)
                               (cell_step a_wind g_source b_bdry info au usr hx hy hz y z k j)))
           (Inr (clear_F info aF)))"

text \<open>The residual at one cell of the array that the routine returns.\<close>

definition residual_at :: "fp_error + array3 \<Rightarrow> int \<times> int \<times> int \<Rightarrow> fp_error + real" where
  "residual_at r c = (case r of Inl e \<Rightarrow> Inl e | Inr aF \<Rightarrow> Inr (aF c))"

subsection \<open>The exact solution of the layer problem\<close>

definition EE :: real where
  "EE = 2.0 * pi"

definition FF :: real where
  "FF = pi / 2.0"

definition layer_u :: "real \<Rightarrow> real \<Rightarrow> real \<Rightarrow> real \<Rightarrow> real" where
  "layer_u x y z eps' =
     (let C = exp (- 2.0 / eps')
      in ((exp ((x - 1) / eps') - C) / (1.0 - C)) * sin (EE * (y + 1.0)) * sin (FF * (z + 1.0)))"

definition layer_a :: "real \<Rightarrow> real \<Rightarrow> real \<Rightarrow> int \<Rightarrow> real" where
  "layer_a x y z q = (if q = 0 then 1.0 else 0.0)"

definition layer_g :: "real \<Rightarrow> real \<Rightarrow> real \<Rightarrow> real \<Rightarrow> real" where
  "layer_g x y z eps' = (let lam = eps' * (EE * EE + FF * FF) in lam * layer_u x y z eps')"

definition layer_b :: "real \<Rightarrow> real \<Rightarrow> real" where
  "layer_b y z = sin (EE * (y + 1.0)) * sin (FF * (z + 1.0))"

text \<open>
  A \<^verbatim>\<open>for\<close> loop whose variable is read after the loop: the result holds the value
  the variable has when the loop ends.
\<close>

function for_loop_var :: "int \<Rightarrow> int \<Rightarrow> (int \<Rightarrow> 's \<Rightarrow> 's) \<Rightarrow> 's \<Rightarrow> int \<times> 's" where
  "for_loop_var i hi body s =
     (if i < hi then for_loop_var (i + 1) hi body (body i s) else (i, s))"
  by pat_completeness auto
termination
  by (relation "measure (\<lambda>(i, hi, body, s). nat (hi - i))") auto

declare for_loop_var.simps [simp del]

text \<open>
  The routine \<^verbatim>\<open>FormLayerUExact\<close>. Its loop over \<open>k\<close> computes \<open>z\<close> from the
  variable \<open>j\<close> before the loop over \<open>j\<close> has assigned it: in the first pass \<open>j\<close>
  holds whatever the uninitialised local holds, the parameter \<open>j0\<close> of the model, and
  in every later pass the value the loop over \<open>j\<close> left. The state of the outer loop
  is therefore the pair of \<open>j\<close> and the array.
\<close>

definition FormLayerUExact :: "int \<Rightarrow> DMDALocalInfo \<Rightarrow> Ctx \<Rightarrow> array3 \<Rightarrow> array3" where
  "FormLayerUExact j0 info usr auex =
     (let hx = 2.0 / real_of_int (mx info - 1);
          hz = 2.0 / real_of_int (my info);
          hy = 2.0 / real_of_int (mz info - 1)
      in snd (for_loop (zs info) (zs info + zm info)
           (\<lambda>k (j, auex).
              let z = -1.0 + real_of_int j * hz
              in for_loop_var (ys info) (ys info + ym info)
                   (\<lambda>j. let y = -1.0 + (real_of_int j + 0.5) * hy
                        in for_loop (xs info) (xs info + xm info)
                             (\<lambda>i auex. let x = -1.0 + real_of_int i * hx
                                       in auex((k, j, i) := layer_u x y z (eps usr))))
                   auex)
           (j0, auex)))"

subsection \<open>The options and the grid of main\<close>

text \<open>
  The part of \<^verbatim>\<open>main\<close> from the defaults to the call of \<^verbatim>\<open>DMDACreate3d\<close>. The
  options \<^verbatim>\<open>-ad3_eps\<close> and \<^verbatim>\<open>-ad3_limiter\<close> are given or not; \<^verbatim>\<open>SETERRQ1\<close> leaves
  \<^verbatim>\<open>main\<close> with the error code \<open>1\<close>. The result holds what the context and the
  grid are created with: the global sizes \<open>M\<close>, \<open>N\<close>, \<open>P\<close>, the degrees of freedom
  and the stencil width \<open>s\<close>.
\<close>

type_synonym PetscErrorCode = int

record Setup =
  user_eps :: real
  user_limiter_fcn :: "(real \<Rightarrow> real) option"
  da_M :: int
  da_N :: int
  da_P :: int
  da_dof :: int
  da_s :: int

definition main_setup :: "real option \<Rightarrow> LimiterType option \<Rightarrow> PetscErrorCode + Setup" where
  "main_setup opt_eps opt_limiter =
     (let eps0 = 1.0;
          limiter0 = CENTERED;
          eps1 = (case opt_eps of None \<Rightarrow> eps0 | Some v \<Rightarrow> v)
      in if eps1 \<le> 0.0 then Inl 1
         else
           (let limiter = (case opt_limiter of None \<Rightarrow> limiter0 | Some l \<Rightarrow> l);
                lf = limiterptr limiter;
                mz' = (if lf = None then 6 else 5)
            in Inr \<lparr>user_eps = eps1, user_limiter_fcn = lf,
                    da_M = 6, da_N = 6, da_P = mz', da_dof = 1,
                    da_s = (if lf = None then 1 else 2)\<rparr>))"

subsection \<open>Owned cells and ghost cells\<close>

text \<open>
  The owned box of the local grid, the index range of the loop that clears \<open>aF\<close>.
\<close>

definition owned :: "DMDALocalInfo \<Rightarrow> int \<times> int \<times> int \<Rightarrow> bool" where
  "owned info c =
     (case c of (k, j, i) \<Rightarrow>
        zs info \<le> k \<and> k < zs info + zm info \<and>
        ys info \<le> j \<and> j < ys info + ym info \<and>
        xs info \<le> i \<and> i < xs info + xm info)"

text \<open>
  The owned box with its ghost cells for the star stencil of width \<open>w\<close>: the cells at
  most \<open>w\<close> away from the owned box along one axis.
\<close>

definition in_halo :: "DMDALocalInfo \<Rightarrow> int \<Rightarrow> int \<times> int \<times> int \<Rightarrow> bool" where
  "in_halo info w c =
     (case c of (k, j, i) \<Rightarrow>
        (zs info - w \<le> k \<and> k < zs info + zm info + w \<and>
         ys info \<le> j \<and> j < ys info + ym info \<and>
         xs info \<le> i \<and> i < xs info + xm info)
      \<or> (zs info \<le> k \<and> k < zs info + zm info \<and>
         ys info - w \<le> j \<and> j < ys info + ym info + w \<and>
         xs info \<le> i \<and> i < xs info + xm info)
      \<or> (zs info \<le> k \<and> k < zs info + zm info \<and>
         ys info \<le> j \<and> j < ys info + ym info \<and>
         xs info - w \<le> i \<and> i < xs info + xm info + w))"

text \<open>Two arrays that hold the same values on the cells of \<open>S\<close>.\<close>

definition agree :: "(int \<times> int \<times> int \<Rightarrow> bool) \<Rightarrow> array3 \<Rightarrow> array3 \<Rightarrow> bool" where
  "agree S a b = (\<forall>c. S c \<longrightarrow> a c = b c)"

definition agree_on ::
  "(int \<times> int \<times> int \<Rightarrow> bool) \<Rightarrow> fp_error + array3 \<Rightarrow> fp_error + array3 \<Rightarrow> bool" where
  "agree_on S s t =
     (case s of
        Inl e \<Rightarrow> t = Inl e
      | Inr a \<Rightarrow> (case t of Inl e \<Rightarrow> False | Inr b \<Rightarrow> agree S a b))"

definition no_error :: "fp_error + array3 \<Rightarrow> bool" where
  "no_error s = (\<exists>aF. s = Inr aF)"

subsection \<open>One pass of the loops at the coordinates of its cell\<close>

text \<open>
  Lines 153 to 155: the grid spacings. Lines 170, 172 and 174: the coordinates of the
  cell \<open>(k, j, i)\<close>, the centre of the cell along z and a node along x and y.
\<close>

definition grid_hx :: "DMDALocalInfo \<Rightarrow> real" where
  "grid_hx info = 2.0 / real_of_int (mx info - 1)"

definition grid_hy :: "DMDALocalInfo \<Rightarrow> real" where
  "grid_hy info = 2.0 / real_of_int (my info - 1)"

definition grid_hz :: "DMDALocalInfo \<Rightarrow> real" where
  "grid_hz info = 2.0 / real_of_int (mz info)"


definition cell_y :: "DMDALocalInfo \<Rightarrow> int \<Rightarrow> real" where
  "cell_y info j = -1.0 + real_of_int j * grid_hy info"

definition cell_z :: "DMDALocalInfo \<Rightarrow> int \<Rightarrow> real" where
  "cell_z info k = -1.0 + (real_of_int k + 0.5) * grid_hz info"






text \<open>
  Lines 174 to 238 at the spacings and coordinates of the routine: the pass \<open>(k, j, i)\<close> of
  the loop nest.
\<close>

definition pass :: "wind_fn \<Rightarrow> source_fn \<Rightarrow> bdry_fn \<Rightarrow> DMDALocalInfo \<Rightarrow> array3 \<Rightarrow> Ctx \<Rightarrow>
   int \<Rightarrow> int \<Rightarrow> int \<Rightarrow> fp_error + array3 \<Rightarrow> fp_error + array3" where
  "pass a_wind g_source b_bdry info au usr k j i =
     cell_step a_wind g_source b_bdry info au usr (grid_hx info) (grid_hy info) (grid_hz info)
       (cell_y info j) (cell_z info k) k j i"


subsection \<open>The entries of the field that a pass reads\<close>

text \<open>
  The index triples of the expressions \<^verbatim>\<open>au[..][..][..]\<close> that the pass \<open>(k, j, i)\<close>
  evaluates, in the order of the source. Lines 177 to 194 read the cell itself, its
  neighbours along x and y unless the boundary value stands in for them, and the two
  neighbours along z.
\<close>

definition nonadvective_reads :: "DMDALocalInfo \<Rightarrow> int \<Rightarrow> int \<Rightarrow> int \<Rightarrow> (int \<times> int \<times> int) list" where
  "nonadvective_reads info k j i =
     (if k \<ge> zs info then
        (if i = mx info - 1 then [(k, j, i)]
         else if i = 0 \<or> j = 0 \<or> j = my info - 1 then [(k, j, i)]
         else
           [(k, j, i)]
           @ (if i = mx info - 2 then [] else [(k, j, i + 1)])
           @ (if i = 1 then [] else [(k, j, i - 1)])
           @ (if j = my info - 2 then [] else [(k, j + 1, i)])
           @ (if j = 1 then [] else [(k, j - 1, i)])
           @ [(k - 1, j, i), (k + 1, j, i)])
      else [])"

text \<open>
  Lines 205 to 212: \<open>u_up\<close> is always read; \<open>u_dn\<close> is read when there is a limiter
  function and the cell is deep; \<open>u_far\<close> is read when moreover \<open>u_dn \<noteq> u_up\<close>, whatever
  the limiter function then does with the ratio.
\<close>

definition face_reads ::
  "wind_fn \<Rightarrow> DMDALocalInfo \<Rightarrow> array3 \<Rightarrow> Ctx \<Rightarrow> real \<Rightarrow> real \<Rightarrow> real \<Rightarrow>
   real \<Rightarrow> real \<Rightarrow> real \<Rightarrow> int \<Rightarrow> int \<Rightarrow> int \<Rightarrow> int \<Rightarrow> (int \<times> int \<times> int) list" where
  "face_reads a_wind info au usr halfx halfy halfz x y z k j i q =
     (case face_offset q of (dk, dj, di) \<Rightarrow>
        (let a = face_wind a_wind usr halfx halfy halfz x y z q;
             u_up = upwind_value au a k j i q;
             r_up = (if a \<ge> 0.0 then (k, j, i) else (k + dk, j + dj, i + di));
             deep = (i > 1 \<and> i < mx info - 2 \<and> j > 1 \<and> j < my info - 2)
         in case limiter_fcn usr of
              None \<Rightarrow> [r_up]
            | Some limiter \<Rightarrow>
                if deep then
                  (let u_dn = downwind_value au a k j i q;
                       r_dn = (if a \<ge> 0.0 then (k + dk, j + dj, i + di) else (k, j, i))
                   in if u_dn \<noteq> u_up then
                        [r_up, r_dn,
                         (if a \<ge> 0.0 then (k - dk, j - dj, i - di)
                          else (k + 2 * dk, j + 2 * dj, i + 2 * di))]
                      else [r_up, r_dn])
                else [r_up]))"

text \<open>Lines 174 to 216: all the entries that the pass \<open>(k, j, i)\<close> reads.\<close>

definition cell_reads ::
  "wind_fn \<Rightarrow> DMDALocalInfo \<Rightarrow> array3 \<Rightarrow> Ctx \<Rightarrow> int \<Rightarrow> int \<Rightarrow> int \<Rightarrow> (int \<times> int \<times> int) list" where
  "cell_reads a_wind info au usr k j i =
     (let hx = 2.0 / real_of_int (mx info - 1);
          hy = 2.0 / real_of_int (my info - 1);
          hz = 2.0 / real_of_int (mz info);
          halfx = hx / 2.0;
          halfy = hy / 2.0;
          halfz = hz / 2.0;
          z = -1.0 + (real_of_int k + 0.5) * hz;
          y = -1.0 + real_of_int j * hy;
          x = -1.0 + real_of_int i * hx
      in nonadvective_reads info k j i
         @ (if i = mx info - 1 \<or> j = my info - 1 then []
            else concat (map (\<lambda>q. if q < 2 \<and> k < zs info then []
                                   else face_reads a_wind info au usr halfx halfy halfz x y z k j i q)
                           [0, 1, 2])))"

text \<open>
  The passes that the loop nest of lines 169 to 174 makes: the owned box and the layer
  \<open>k = zs - 1\<close> below it.
\<close>

definition visited :: "DMDALocalInfo \<Rightarrow> int \<Rightarrow> int \<Rightarrow> int \<Rightarrow> bool" where
  "visited info k j i =
     (zs info - 1 \<le> k \<and> k < zs info + zm info \<and>
      ys info \<le> j \<and> j < ys info + ym info \<and>
      xs info \<le> i \<and> i < xs info + xm info)"

subsection \<open>The arithmetic of doubles\<close>

text \<open>
  IEEE 754 binary64 with rounding to nearest, ties to even. A double is a finite
  number (\<open>Finite x\<close>, where \<open>Finite 0\<close> is the zero with the positive sign), the zero
  with the negative sign, an infinity or a NaN. The reals that are doubles are the
  \<open>representable\<close> ones: at most \<open>max_double\<close> in size and a multiple of the spacing
  \<open>quantum x\<close> of the doubles around them, which is \<open>2 ^ (e - 52)\<close> for
  \<open>2 ^ e \<le> |x| < 2 ^ (e + 1)\<close> and \<open>2 ^ - 1074\<close> below \<open>2 ^ - 1022\<close>.
\<close>

datatype double = Finite real | NegZero | PlusInf | MinusInf | NaN

definition max_double :: real where
  "max_double = (2 - 1 / 2 ^ 52) * 2 ^ 1023"

definition binade :: "real \<Rightarrow> int" where
  "binade x = \<lfloor>log 2 \<bar>x\<bar>\<rfloor>"

definition quantum :: "real \<Rightarrow> real" where
  "quantum x = 2 powr real_of_int (max (binade x) (- 1022) - 52)"

definition representable :: "real \<Rightarrow> bool" where
  "representable x =
     (\<bar>x\<bar> \<le> max_double \<and> real_of_int \<lfloor>x / quantum x\<rfloor> = x / quantum x)"

text \<open>
  Rounding of a nonzero real to a double: to the nearest multiple of the spacing, to the
  even one of two nearest; a result beyond the largest double is an infinity, a
  result that is zero keeps the sign. An exact zero gets the sign \<open>neg\<close> that the
  operation determines.
\<close>

definition round_even :: "real \<Rightarrow> int" where
  "round_even r =
     (let f = \<lfloor>r\<rfloor>; d = r - real_of_int f
      in if d < 1 / 2 then f
         else if 1 / 2 < d then f + 1
         else if even f then f else f + 1)"

definition signed_zero :: "bool \<Rightarrow> double" where
  "signed_zero neg = (if neg then NegZero else Finite 0)"

definition signed_inf :: "bool \<Rightarrow> double" where
  "signed_inf neg = (if neg then MinusInf else PlusInf)"

definition round_double :: "bool \<Rightarrow> real \<Rightarrow> double" where
  "round_double neg x =
     (if x = 0 then signed_zero neg
      else
        (let q = quantum x;
             y = q * real_of_int (round_even (x / q))
         in if max_double < \<bar>y\<bar> then signed_inf (x < 0)
            else if y = 0 then signed_zero (x < 0)
            else Finite y))"

definition sign_bit :: "double \<Rightarrow> bool" where
  "sign_bit d = (case d of Finite x \<Rightarrow> x < 0 | NegZero \<Rightarrow> True | PlusInf \<Rightarrow> False
                 | MinusInf \<Rightarrow> True | NaN \<Rightarrow> False)"

definition dval :: "double \<Rightarrow> real" where
  "dval d = (case d of Finite x \<Rightarrow> x | _ \<Rightarrow> 0)"

definition is_inf :: "double \<Rightarrow> bool" where
  "is_inf d = (d = PlusInf \<or> d = MinusInf)"

definition is_zero :: "double \<Rightarrow> bool" where
  "is_zero d = (d = Finite 0 \<or> d = NegZero)"


text \<open>
  The operations \<^verbatim>\<open>fabs\<close> (the macro \<^verbatim>\<open>PetscAbsReal\<close>), unary minus, \<^verbatim>\<open>+\<close>, \<^verbatim>\<open>-\<close>, \<^verbatim>\<open>*\<close> and
  \<^verbatim>\<open>/\<close>, and the comparisons \<^verbatim>\<open>>=\<close> and \<^verbatim>\<open>!=\<close>, on doubles.
\<close>

definition dabs :: "double \<Rightarrow> double" where
  "dabs d = (case d of Finite x \<Rightarrow> Finite \<bar>x\<bar> | NegZero \<Rightarrow> Finite 0 | PlusInf \<Rightarrow> PlusInf
             | MinusInf \<Rightarrow> PlusInf | NaN \<Rightarrow> NaN)"


definition dadd :: "double \<Rightarrow> double \<Rightarrow> double" where
  "dadd a b =
     (if a = NaN \<or> b = NaN then NaN
      else if is_inf a \<and> is_inf b then (if a = b then a else NaN)
      else if is_inf a then a
      else if is_inf b then b
      else
        (let v = dval a + dval b
         in if v = 0 then signed_zero (sign_bit a \<and> sign_bit b)
            else round_double (v < 0) v))"


definition dmul :: "double \<Rightarrow> double \<Rightarrow> double" where
  "dmul a b =
     (if a = NaN \<or> b = NaN then NaN
      else
        (let neg = (sign_bit a \<noteq> sign_bit b)
         in if (is_inf a \<and> is_zero b) \<or> (is_zero a \<and> is_inf b) then NaN
            else if is_inf a \<or> is_inf b then signed_inf neg
            else round_double neg (dval a * dval b)))"

definition ddiv :: "double \<Rightarrow> double \<Rightarrow> double" where
  "ddiv a b =
     (if a = NaN \<or> b = NaN then NaN
      else
        (let neg = (sign_bit a \<noteq> sign_bit b)
         in if (is_inf a \<and> is_inf b) \<or> (is_zero a \<and> is_zero b) then NaN
            else if is_inf a then signed_inf neg
            else if is_inf b then signed_zero neg
            else if is_zero b then signed_inf neg
            else round_double neg (dval a / dval b)))"



subsection \<open>The limiters and the flux through a face on doubles\<close>

text \<open>Lines 57 to 64 in the arithmetic of doubles.\<close>

definition centered_double :: "double \<Rightarrow> double" where
  "centered_double theta = Finite 0.5"

definition vanleer_double :: "double \<Rightarrow> double" where
  "vanleer_double theta =
     (let abstheta = dabs theta
      in ddiv (dmul (Finite 0.5) (dadd theta abstheta)) (dadd (Finite 1.0) abstheta))"








subsection \<open>Concrete grids, fields and contexts\<close>

text \<open>Whole grids owned by one process, and the right half of a grid split along x.\<close>

definition grid_332 :: DMDALocalInfo where
  "grid_332 = \<lparr>mx = 3, my = 3, mz = 2, xs = 0, ys = 0, zs = 0, xm = 3, ym = 3, zm = 2\<rparr>"

definition grid_432 :: DMDALocalInfo where
  "grid_432 = \<lparr>mx = 4, my = 3, mz = 2, xs = 0, ys = 0, zs = 0, xm = 4, ym = 3, zm = 2\<rparr>"

definition grid_432_right :: DMDALocalInfo where
  "grid_432_right = \<lparr>mx = 4, my = 3, mz = 2, xs = 2, ys = 0, zs = 0, xm = 2, ym = 3, zm = 2\<rparr>"

text \<open>The default grid of \<^verbatim>\<open>main\<close> with a limiter: six by six by five cells.\<close>

definition grid_665 :: DMDALocalInfo where
  "grid_665 = \<lparr>mx = 6, my = 6, mz = 5, xs = 0, ys = 0, zs = 0, xm = 6, ym = 6, zm = 5\<rparr>"


definition ctx_upwind :: Ctx where
  "ctx_upwind = \<lparr>eps = 1, w0 = 1, a_fcn = layer_a, g_fcn = (\<lambda>x y z q. 0),
     b_fcn = (\<lambda>x y z q. 0), limiter_fcn = None\<rparr>"

definition ctx_centered :: Ctx where
  "ctx_centered = \<lparr>eps = 1, w0 = 1, a_fcn = layer_a, g_fcn = (\<lambda>x y z q. 0),
     b_fcn = (\<lambda>x y z q. 0), limiter_fcn = Some centered\<rparr>"

definition ctx_vanleer :: Ctx where
  "ctx_vanleer = \<lparr>eps = 1, w0 = 1, a_fcn = layer_a, g_fcn = (\<lambda>x y z q. 0),
     b_fcn = (\<lambda>x y z q. 0), limiter_fcn = Some vanleer\<rparr>"

text \<open>
  The wind of the layer problem, winds of speed one up and down through the top
  faces, and a wind along x that grows with x.
\<close>

definition wind_east :: wind_fn where
  "wind_east x y z q usr = layer_a x y z q"

definition wind_top :: wind_fn where
  "wind_top x y z q usr = (if q = 2 then 1 else 0)"

definition wind_down :: wind_fn where
  "wind_down x y z q usr = (if q = 2 then - 1 else 0)"


definition g_zero :: source_fn where
  "g_zero x y z u usr = 0"

definition b_zero :: bdry_fn where
  "b_zero y z usr = 0"

text \<open>
  The constant field, and a field that is periodic in \<open>k\<close> with period two, as ghost
  values on a periodic axis of two cells are.
\<close>

definition au_ones :: array3 where
  "au_ones c = 1"

definition au_layers :: array3 where
  "au_layers c = (case c of (k, j, i) \<Rightarrow> if k mod 2 = 0 then 1 else 3)"




subsection \<open>Rounding to a double\<close>

lemma binade_eq:
  assumes "0 < x" "2 ^ n \<le> x" "x < 2 ^ (n + 1)"
  shows "binade x = int n"
proof -
  have "\<lfloor>log 2 x\<rfloor> = int n"
    using assms by (subst floor_log_eq_powr_iff) (simp_all add: powr_realpow powr_add)
  then show ?thesis using assms by (simp add: binade_def)
qed

lemma quantum_eq:
  assumes "0 < x" "2 ^ n \<le> x" "x < 2 ^ (n + 1)" "52 \<le> n"
  shows "quantum x = 2 ^ (n - 52)"
proof -
  have "quantum x = 2 powr real_of_int (int n - 52)"
    using binade_eq [OF assms(1-3)] by (simp add: quantum_def)
  also have "int n - 52 = int (n - 52)" using assms(4) by simp
  also have "2 powr real_of_int (int (n - 52)) = (2::real) ^ (n - 52)"
    by (simp add: powr_realpow)
  finally show ?thesis .
qed

lemma round_even_int: "round_even (real_of_int m) = m"
  by (simp add: round_even_def)

lemma round_even_near:
  assumes "\<bar>r - real_of_int m\<bar> < 1 / 2"
  shows "round_even r = m"
proof -
  from assms have lo: "real_of_int m - 1 / 2 < r" and hi: "r < real_of_int m + 1 / 2"
    by linarith+
  have "\<lfloor>r\<rfloor> = m \<or> \<lfloor>r\<rfloor> = m - 1" using lo hi by linarith
  then show ?thesis
  proof
    assume f: "\<lfloor>r\<rfloor> = m"
    then have "r - real_of_int \<lfloor>r\<rfloor> < 1 / 2" using hi by simp
    then show ?thesis by (simp add: round_even_def Let_def f)
  next
    assume f: "\<lfloor>r\<rfloor> = m - 1"
    then have "1 / 2 < r - real_of_int \<lfloor>r\<rfloor>" using lo by simp
    then show ?thesis by (simp add: round_even_def Let_def f)
  qed
qed

lemma round_double_near:
  assumes "0 < x" "2 ^ n \<le> x" "x < 2 ^ (n + 1)" "52 \<le> n"
    and "\<bar>x / 2 ^ (n - 52) - real_of_int m\<bar> < 1 / 2"
    and "2 ^ (n - 52) * real_of_int m \<le> max_double" "0 < m"
  shows "round_double neg x = Finite (2 ^ (n - 52) * real_of_int m)"
proof -
  have q: "quantum x = 2 ^ (n - 52)" by (rule quantum_eq [OF assms(1-4)])
  have r: "round_even (x / 2 ^ (n - 52)) = m" by (rule round_even_near [OF assms(5)])
  have pos: "0 < (2::real) ^ (n - 52) * real_of_int m" using assms(7) by simp
  show ?thesis
    using assms(1,6,7) pos by (simp add: round_double_def q r Let_def)
qed

lemma max_double_large: "2 ^ 58 \<le> max_double"
  by (simp add: max_double_def)

lemma binade_bounds:
  assumes "0 < x"
  shows "2 powr real_of_int (binade x) \<le> x" "x < 2 powr (real_of_int (binade x) + 1)"
proof -
  have "\<lfloor>log 2 x\<rfloor> = binade x" using assms by (simp add: binade_def)
  then have "2 powr real_of_int (binade x) \<le> x \<and> x < 2 powr (real_of_int (binade x) + 1)"
    using assms by (subst (asm) floor_log_eq_powr_iff) simp_all
  then show "2 powr real_of_int (binade x) \<le> x" "x < 2 powr (real_of_int (binade x) + 1)"
    by simp_all
qed

lemma binade_mono:
  assumes "0 < x" "x \<le> r"
  shows "binade x \<le> binade r"
proof -
  have "log 2 x \<le> log 2 r" using assms by simp
  then show ?thesis using assms by (simp add: binade_def floor_mono)
qed

lemma binade_minus: "binade (- x) = binade x"
  by (simp add: binade_def)

lemma quantum_minus: "quantum (- x) = quantum x"
  by (simp add: quantum_def binade_minus)

lemma quantum_pos: "0 < quantum x"
  by (simp add: quantum_def)

lemma representable_iff:
  "representable x =
     (\<bar>x\<bar> \<le> max_double \<and> (x = 0 \<or> (\<exists>m::int. x = quantum x * real_of_int m)))"
proof -
  have q: "0 < quantum x" by (rule quantum_pos)
  have "(real_of_int \<lfloor>x / quantum x\<rfloor> = x / quantum x)
      = (x = 0 \<or> (\<exists>m::int. x = quantum x * real_of_int m))"
  proof
    assume A: "real_of_int \<lfloor>x / quantum x\<rfloor> = x / quantum x"
    have "x = quantum x * (x / quantum x)" using q by simp
    also have "\<dots> = quantum x * real_of_int \<lfloor>x / quantum x\<rfloor>" by (simp only: A)
    finally have "x = quantum x * real_of_int \<lfloor>x / quantum x\<rfloor>" .
    then show "x = 0 \<or> (\<exists>m::int. x = quantum x * real_of_int m)" by blast
  next
    assume "x = 0 \<or> (\<exists>m::int. x = quantum x * real_of_int m)"
    then show "real_of_int \<lfloor>x / quantum x\<rfloor> = x / quantum x"
    proof
      assume "x = 0"
      then show ?thesis by simp
    next
      assume "\<exists>m::int. x = quantum x * real_of_int m"
      then obtain m :: int where "x = quantum x * real_of_int m" by blast
      then have "x / quantum x = real_of_int m" using q by (simp add: field_simps)
      then show ?thesis by simp
    qed
  qed
  then show ?thesis by (simp add: representable_def)
qed

lemma pow2_multiple:
  assumes "a \<le> b"
  shows "2 powr real_of_int b = 2 powr real_of_int a * real_of_int (2 ^ nat (b - a))"
proof -
  have "real_of_int b = real_of_int a + real (nat (b - a))" using assms by simp
  then have "2 powr real_of_int b = 2 powr real_of_int a * 2 powr real (nat (b - a))"
    by (simp only: powr_add)
  then show ?thesis by (simp add: powr_realpow)
qed

lemma round_even_le:
  assumes "r \<le> real_of_int M"
  shows "round_even r \<le> M"
proof (cases "r = real_of_int \<lfloor>r\<rfloor>")
  case True
  then have "round_even r = \<lfloor>r\<rfloor>" by (metis round_even_int)
  moreover have "\<lfloor>r\<rfloor> \<le> M" using assms by (simp add: floor_le_iff)
  ultimately show ?thesis by simp
next
  case False
  moreover have "real_of_int \<lfloor>r\<rfloor> \<le> r" by simp
  ultimately have "real_of_int \<lfloor>r\<rfloor> < r" by linarith
  with assms have "\<lfloor>r\<rfloor> < M" by linarith
  moreover have "round_even r \<le> \<lfloor>r\<rfloor> + 1" by (simp add: round_even_def Let_def)
  ultimately show ?thesis by simp
qed

lemma round_even_ge:
  assumes "real_of_int M \<le> r"
  shows "M \<le> round_even r"
proof -
  have "M \<le> \<lfloor>r\<rfloor>" using assms by (simp add: le_floor_iff)
  moreover have "\<lfloor>r\<rfloor> \<le> round_even r" by (simp add: round_even_def Let_def)
  ultimately show ?thesis by simp
qed

lemma round_representable:
  assumes "representable x" "x \<noteq> 0"
  shows "round_double neg x = Finite x"
proof -
  from assms obtain m :: int where m: "x = quantum x * real_of_int m" and mx: "\<bar>x\<bar> \<le> max_double"
    by (auto simp: representable_iff)
  have "x / quantum x = real_of_int m"
    using quantum_pos [of x] by (subst m) simp
  then have "round_even (x / quantum x) = m" by (simp add: round_even_int)
  then have "quantum x * real_of_int (round_even (x / quantum x)) = x" using m by simp
  then show ?thesis using assms(2) mx by (simp add: round_double_def Let_def)
qed

lemma round_le_repr:
  assumes "0 < x" "x \<le> r" "representable r"
  shows "\<exists>y. round_double neg x = Finite y \<and> 0 \<le> y \<and> y \<le> r"
proof -
  define q where "q = quantum x"
  have qpos: "0 < q" by (simp add: q_def quantum_pos)
  have rpos: "0 < r" using assms by simp
  from assms(3) rpos obtain m :: int where m: "r = quantum r * real_of_int m"
    and rmax: "r \<le> max_double"
    by (auto simp: representable_iff)
  have "max (binade x) (- 1022) - 52 \<le> max (binade r) (- 1022) - 52"
    using binade_mono [OF assms(1,2)] by simp
  from pow2_multiple [OF this]
  obtain j :: nat where "quantum r = q * real_of_int (2 ^ j)"
    unfolding quantum_def q_def by blast
  then have rM: "r = q * real_of_int (2 ^ j * m)" using m by simp
  define M where "M = 2 ^ j * m"
  have "x / q \<le> real_of_int M"
    using assms(2) qpos rM by (simp add: M_def field_simps)
  then have up: "round_even (x / q) \<le> M" by (rule round_even_le)
  have "real_of_int 0 \<le> x / q" using assms(1) qpos by simp
  then have lo: "0 \<le> round_even (x / q)" by (rule round_even_ge)
  define y where "y = q * real_of_int (round_even (x / q))"
  have y0: "0 \<le> y" using lo qpos by (simp add: y_def)
  have "y \<le> q * real_of_int M" using up qpos by (simp add: y_def)
  then have yr: "y \<le> r" using rM by (simp add: M_def)
  have "round_double neg x = (if y = 0 then Finite 0 else Finite y)"
    using assms(1) y0 yr rmax
    by (simp add: round_double_def Let_def q_def [symmetric] y_def [symmetric] signed_zero_def)
  then show ?thesis using y0 yr rpos by (cases "y = 0") auto
qed

lemma round_ge_repr:
  assumes "0 < r" "r \<le> x" "representable r"
  shows "round_double neg x = PlusInf \<or> (\<exists>y. round_double neg x = Finite y \<and> r \<le> y)"
proof -
  define q where "q = quantum x"
  have qpos: "0 < q" by (simp add: q_def quantum_pos)
  have xpos: "0 < x" using assms by simp
  from assms(3,1) obtain m :: int where m: "r = quantum r * real_of_int m"
    by (auto simp: representable_iff)
  define y where "y = q * real_of_int (round_even (x / q))"
  have ry: "r \<le> y"
  proof (cases "max (binade r) (- 1022) = max (binade x) (- 1022)")
    case True
    then have "quantum r = q" by (simp add: quantum_def q_def)
    then have "real_of_int m \<le> x / q" using m assms(2) qpos by (simp add: field_simps)
    then have "m \<le> round_even (x / q)" by (rule round_even_ge)
    then have "q * real_of_int m \<le> y" using qpos by (simp add: y_def)
    then show ?thesis using m \<open>quantum r = q\<close> by simp
  next
    case False
    have le: "binade r \<le> binade x" by (rule binade_mono [OF assms(1,2)])
    with False have bx: "- 1022 < binade x" and lt: "binade r < binade x" by auto
    then have qx: "q = 2 powr real_of_int (binade x - 52)" by (simp add: q_def quantum_def)
    have "2 powr real_of_int (binade x) = q * real_of_int (2 ^ nat 52)"
      unfolding qx using pow2_multiple [of "binade x - 52" "binade x"] by simp
    then have top: "2 powr real_of_int (binade x) = q * real_of_int (2 ^ 52)" by simp
    have "q * real_of_int (2 ^ 52) \<le> x"
      using binade_bounds(1) [OF xpos] top by simp
    then have "real_of_int (2 ^ 52) \<le> x / q" using qpos by (simp add: field_simps)
    then have "2 ^ 52 \<le> round_even (x / q)" by (rule round_even_ge)
    then have "q * real_of_int (2 ^ 52) \<le> y" using qpos by (simp add: y_def)
    then have "2 powr real_of_int (binade x) \<le> y" using top by simp
    moreover have "r < 2 powr (real_of_int (binade r) + 1)"
      by (rule binade_bounds(2) [OF assms(1)])
    moreover have "2 powr (real_of_int (binade r) + 1) \<le> 2 powr real_of_int (binade x)"
      using lt by (intro powr_mono) simp_all
    ultimately show ?thesis by linarith
  qed
  then have ypos: "0 < y" using assms(1) by simp
  have "round_double neg x = (if max_double < y then PlusInf else Finite y)"
    using xpos ypos
    by (simp add: round_double_def Let_def q_def [symmetric] y_def [symmetric] signed_inf_def)
  then show ?thesis using ry by (cases "max_double < y") auto
qed

lemma max_double_ge_one: "1 \<le> max_double"
  by (simp add: max_double_def)

lemma representable_one: "representable 1"
proof -
  have "binade 1 = 0" by (simp add: binade_def)
  then have "quantum 1 = 2 powr real_of_int (- 52)" by (simp add: quantum_def)
  moreover have "2 powr real_of_int 0 = 2 powr real_of_int (- 52) * real_of_int (2 ^ nat (0 - (- 52)))"
    by (rule pow2_multiple) simp
  ultimately have "1 = quantum 1 * real_of_int (2 ^ 52)" by simp
  then show ?thesis using max_double_ge_one unfolding representable_iff by fastforce
qed

lemma representable_minus: "representable (- x) = representable x"
proof -
  have "(\<exists>m::int. - x = quantum x * real_of_int m) = (\<exists>m::int. x = quantum x * real_of_int m)"
  proof
    assume "\<exists>m::int. - x = quantum x * real_of_int m"
    then obtain m :: int where "- x = quantum x * real_of_int m" by blast
    then have "x = quantum x * real_of_int (- m)" by simp
    then show "\<exists>m::int. x = quantum x * real_of_int m" by blast
  next
    assume "\<exists>m::int. x = quantum x * real_of_int m"
    then obtain m :: int where "x = quantum x * real_of_int m" by blast
    then have "- x = quantum x * real_of_int (- m)" by simp
    then show "\<exists>m::int. - x = quantum x * real_of_int m" by blast
  qed
  then show ?thesis by (simp add: representable_iff quantum_minus)
qed

lemma binade_double:
  assumes "x \<noteq> 0"
  shows "binade (2 * x) = binade x + 1"
proof -
  have "log 2 \<bar>2 * x\<bar> = 1 + log 2 \<bar>x\<bar>"
    using assms by (simp add: abs_mult log_mult)
  then show ?thesis by (simp add: binade_def)
qed

lemma representable_double:
  assumes "representable x" "\<bar>2 * x\<bar> \<le> max_double"
  shows "representable (2 * x)"
proof (cases "x = 0")
  case True
  then show ?thesis by (simp add: representable_iff max_double_def)
next
  case False
  with assms(1) obtain m :: int where m: "x = quantum x * real_of_int m"
    by (auto simp: representable_iff)
  have "\<exists>n::int. 2 * x = quantum (2 * x) * real_of_int n"
  proof (cases "- 1022 \<le> binade x")
    case True
    then have "max (binade (2 * x)) (- 1022) - 52 = (max (binade x) (- 1022) - 52) + 1"
      using binade_double [OF False] by simp
    then have "quantum (2 * x) = 2 powr (real_of_int (max (binade x) (- 1022) - 52) + 1)"
      unfolding quantum_def by (simp only: of_int_add of_int_1)
    also have "\<dots> = 2 powr real_of_int (max (binade x) (- 1022) - 52) * 2 powr 1"
      by (rule powr_add)
    also have "\<dots> = quantum x * 2" by (simp add: quantum_def)
    finally have "2 * x = quantum (2 * x) * real_of_int m" using m by simp
    then show ?thesis by blast
  next
    case False
    then have "max (binade (2 * x)) (- 1022) = max (binade x) (- 1022)"
      using binade_double [OF \<open>x \<noteq> 0\<close>] by simp
    then have "quantum (2 * x) = quantum x" by (simp add: quantum_def)
    then have "2 * x = quantum (2 * x) * real_of_int (2 * m)" using m by simp
    then show ?thesis by blast
  qed
  then show ?thesis using assms(2) by (simp add: representable_iff)
qed

lemma representable_1e17: "representable 100000000000000000"
proof -
  have "quantum 100000000000000000 = 2 ^ (56 - 52)"
    by (rule quantum_eq) simp_all
  then have "100000000000000000 = quantum 100000000000000000 * real_of_int 6250000000000000"
    by simp
  moreover have "\<bar>100000000000000000 :: real\<bar> \<le> max_double"
    using max_double_large by simp
  ultimately show ?thesis unfolding representable_iff by blast
qed

lemma max_double_less: "max_double < 2 ^ 1024"
  by (simp add: max_double_def)

lemma max_double_ge: "2 ^ 1023 \<le> max_double"
  by (simp add: max_double_def)

lemma representable_2p1023: "representable (2 ^ 1023)"
proof -
  have "quantum (2 ^ 1023) = 2 ^ (1023 - 52)"
    by (rule quantum_eq) simp_all
  then have "(2::real) ^ 1023 = quantum (2 ^ 1023) * real_of_int (2 ^ 52)"
    by simp
  moreover have "\<bar>2 ^ 1023 :: real\<bar> \<le> max_double"
    using max_double_ge by simp
  ultimately show ?thesis unfolding representable_iff by blast
qed

lemma round_double_over:
  assumes "0 < x" "2 ^ n \<le> x" "x < 2 ^ (n + 1)" "52 \<le> n"
    and "\<bar>x / 2 ^ (n - 52) - real_of_int m\<bar> < 1 / 2"
    and "max_double < 2 ^ (n - 52) * real_of_int m"
  shows "round_double neg x = PlusInf"
proof -
  have q: "quantum x = 2 ^ (n - 52)" by (rule quantum_eq [OF assms(1-4)])
  have r: "round_even (x / 2 ^ (n - 52)) = m" by (rule round_even_near [OF assms(5)])
  have "0 \<le> max_double" using max_double_ge_one by simp
  with assms(6) have "max_double < \<bar>2 ^ (n - 52) * real_of_int m\<bar>" by linarith
  then show ?thesis
    using assms(1) by (simp add: round_double_def q r Let_def signed_inf_def)
qed














lemma max_double_alt: "max_double = (2 ^ 53 - 1) * 2 ^ 971"
  by (simp add: max_double_def)

lemma representable_small:
  assumes "representable x" "0 < x" "x < 2 ^ 1023"
  shows "2 * x \<le> max_double"
proof -
  from assms(1,2) obtain m :: int where m: "x = quantum x * real_of_int m"
    by (auto simp: representable_iff)
  define b where "b = max (binade x) (- 1022)"
  have q: "quantum x = 2 powr real_of_int (b - 52)" by (simp add: quantum_def b_def)
  define e :: int where "e = 1023"
  have "x < 2 powr real_of_int e" using assms(3) by (simp add: e_def powr_realpow)
  then have "2 powr real_of_int (binade x) < 2 powr real_of_int e"
    using binade_bounds(1) [OF assms(2)] by linarith
  then have "binade x < e" by simp
  then have "binade x < 1023" by (simp add: e_def)
  then have b: "b \<le> 1022" by (simp add: b_def)
  have "x < 2 powr (real_of_int (binade x) + 1)" by (rule binade_bounds(2) [OF assms(2)])
  also have "\<dots> \<le> 2 powr real_of_int (b + 1)"
    by (rule powr_mono) (simp_all add: b_def)
  also have "\<dots> = 2 powr real_of_int (b - 52) * real_of_int (2 ^ nat ((b + 1) - (b - 52)))"
    by (rule pow2_multiple) simp
  also have "\<dots> = quantum x * real_of_int (2 ^ 53)" by (simp add: q)
  finally have "quantum x * real_of_int m < quantum x * real_of_int (2 ^ 53)" using m by simp
  then have "real_of_int m < real_of_int (2 ^ 53)" using quantum_pos [of x] by simp
  then have "m \<le> 2 ^ 53 - 1" by simp
  then have "real_of_int m \<le> real_of_int (2 ^ 53 - 1)" by (simp only: of_int_le_iff)
  then have le: "real_of_int m \<le> 2 ^ 53 - 1" by simp
  have "quantum x \<le> 2 powr real_of_int 970"
    unfolding q by (rule powr_mono) (use b in simp_all)
  then have qle: "quantum x \<le> 2 ^ 970" by (simp add: powr_realpow)
  have "0 < quantum x * real_of_int m" using m assms(2) by simp
  then have "0 < real_of_int m"
    using quantum_pos [of x] by (simp add: zero_less_mult_iff)
  then have mpos: "0 \<le> real_of_int m" by simp
  have "x = quantum x * real_of_int m" by (rule m)
  also have "\<dots> \<le> 2 ^ 970 * real_of_int m"
    by (rule mult_right_mono [OF qle mpos])
  also have "\<dots> \<le> 2 ^ 970 * (2 ^ 53 - 1)"
    by (rule mult_left_mono [OF le]) simp
  finally have "2 * x \<le> 2 * (2 ^ 970 * (2 ^ 53 - 1))" by simp
  also have "\<dots> = max_double" by (simp add: max_double_alt)
  finally show ?thesis .
qed

lemma round_double_huge:
  assumes "2 ^ 1024 \<le> x"
  shows "round_double neg x = PlusInf"
proof -
  have "(0::real) < 2 ^ 1024" by simp
  with assms have xpos: "0 < x" by linarith
  have "binade (2 ^ 1024) = int 1024" by (rule binade_eq) simp_all
  moreover have "binade (2 ^ 1024) \<le> binade x" by (rule binade_mono [OF _ assms]) simp
  ultimately have bx: "1024 \<le> binade x" by simp
  define q where "q = quantum x"
  have qpos: "0 < q" by (simp add: q_def quantum_pos)
  have qx: "q = 2 powr real_of_int (binade x - 52)" using bx by (simp add: q_def quantum_def)
  have "2 powr real_of_int (binade x) = q * real_of_int (2 ^ nat 52)"
    unfolding qx using pow2_multiple [of "binade x - 52" "binade x"] by simp
  then have top: "2 powr real_of_int (binade x) = q * real_of_int (2 ^ 52)" by simp
  have "q * real_of_int (2 ^ 52) \<le> x" using binade_bounds(1) [OF xpos] top by simp
  then have "real_of_int (2 ^ 52) \<le> x / q" using qpos by (simp add: field_simps)
  then have "2 ^ 52 \<le> round_even (x / q)" by (rule round_even_ge)
  define y where "y = q * real_of_int (round_even (x / q))"
  have "q * real_of_int (2 ^ 52) \<le> y"
    using \<open>2 ^ 52 \<le> round_even (x / q)\<close> qpos by (simp add: y_def)
  then have "2 powr real_of_int (binade x) \<le> y" using top by simp
  moreover have "2 powr real_of_int 1024 \<le> 2 powr real_of_int (binade x)"
    by (rule powr_mono) (use bx in simp_all)
  ultimately have "2 ^ 1024 \<le> y" by (simp add: powr_realpow)
  with max_double_less have big: "max_double < y" by linarith
  then have "max_double < \<bar>y\<bar>" by linarith
  then show ?thesis
    using xpos by (simp add: round_double_def Let_def q_def [symmetric] y_def [symmetric]
        signed_inf_def)
qed

lemma one_plus_big:
  assumes "representable x" "2 ^ 1023 \<le> x"
  shows "dadd (Finite 1) (Finite x) = Finite x"
proof -
  have "(0::real) < 2 ^ 1023" by simp
  with assms(2) have xpos: "0 < x" by linarith
  have xmax: "x \<le> max_double" using assms(1) xpos by (simp add: representable_iff)
  then have xlt: "x < 2 ^ 1024" using max_double_less by linarith
  have x1: "1 + x < 2 ^ (1023 + 1)"
    using xmax by (simp add: max_double_alt)
  have qx: "quantum x = 2 ^ (1023 - 52)"
    by (rule quantum_eq [OF xpos assms(2)]) (use xlt in simp_all)
  from assms(1) xpos obtain m :: int where m: "x = quantum x * real_of_int m"
    by (auto simp: representable_iff)
  define p :: real where "p = 2 ^ (1023 - 52)"
  have p2: "2 < p" by (simp add: p_def)
  have m': "x = p * real_of_int m" using m by (simp only: qx p_def)
  have mpos: "0 < m"
    using m' xpos p2 by (simp add: zero_less_mult_iff)
  have "(1 + x) / p - real_of_int m = 1 / p"
    using p2 by (simp add: m' field_simps)
  moreover have "1 / p < 1 / 2" using p2 by (simp add: field_simps)
  moreover have "0 < 1 / p" using p2 by simp
  ultimately have near: "\<bar>(1 + x) / p - real_of_int m\<bar> < 1 / 2"
    by linarith
  have "round_double False (1 + x) = Finite (2 ^ (1023 - 52) * real_of_int m)"
  proof (rule round_double_near [where n = 1023 and m = m])
    show "0 < 1 + x" using xpos by simp
    show "2 ^ 1023 \<le> 1 + x" using assms(2) by simp
    show "1 + x < 2 ^ (1023 + 1)" by (rule x1)
    show "52 \<le> (1023::nat)" by simp
    show "\<bar>(1 + x) / 2 ^ (1023 - 52) - real_of_int m\<bar> < 1 / 2"
      using near by (simp only: p_def)
    show "2 ^ (1023 - 52) * real_of_int m \<le> max_double"
      using xmax m' by (simp only: p_def)
    show "0 < m" by (rule mpos)
  qed
  then have "round_double False (1 + x) = Finite (p * real_of_int m)" by (simp only: p_def)
  then have "round_double False (1 + x) = Finite x" by (simp only: m' [symmetric])
  then show ?thesis
    using xpos by (simp add: dadd_def is_inf_def dval_def Let_def)
qed

subsection \<open>Properties of the limiters\<close>

lemma one_plus_cases:
  assumes "0 \<le> t"
  shows "dadd (Finite 1) (Finite t) = PlusInf
       \<or> (\<exists>d. dadd (Finite 1) (Finite t) = Finite d \<and> 1 \<le> d \<and> (representable t \<longrightarrow> t \<le> d))"
proof -
  have v: "dadd (Finite 1) (Finite t) = round_double False (1 + t)"
    using assms by (simp add: dadd_def is_inf_def dval_def Let_def)
  from round_ge_repr [of 1 "1 + t" False] assms representable_one
  consider "round_double False (1 + t) = PlusInf"
    | y where "round_double False (1 + t) = Finite y" "1 \<le> y"
    by auto
  then show ?thesis
  proof cases
    case 1
    then show ?thesis using v by simp
  next
    case 2
    have "t \<le> y" if "representable t"
    proof (cases "t = 0")
      case True
      then show ?thesis using 2 by simp
    next
      case False
      with assms have "0 < t" by simp
      from round_ge_repr [OF this _ that, of "1 + t" False] 2 show ?thesis by auto
    qed
    then show ?thesis using v 2 by auto
  qed
qed

lemma vanleer_double_bounds:
  assumes "representable theta"
  shows "(theta \<le> 0 \<longrightarrow> vanleer_double (Finite theta) = Finite 0)
       \<and> (0 < theta \<and> 2 * theta \<le> max_double \<longrightarrow>
            (\<exists>v. vanleer_double (Finite theta) = Finite v \<and> 0 \<le> v \<and> v \<le> 1))"
proof (intro conjI impI)
  assume neg: "theta \<le> 0"
  have num: "dmul (Finite (1 / 2)) (dadd (Finite theta) (Finite \<bar>theta\<bar>)) = Finite 0"
    using neg
    by (simp add: dadd_def dmul_def is_inf_def is_zero_def dval_def sign_bit_def Let_def
        signed_zero_def round_double_def)
  from one_plus_cases [of "\<bar>theta\<bar>"]
  consider "dadd (Finite 1) (Finite \<bar>theta\<bar>) = PlusInf"
    | d where "dadd (Finite 1) (Finite \<bar>theta\<bar>) = Finite d" "1 \<le> d"
    by auto
  then show "vanleer_double (Finite theta) = Finite 0"
  proof cases
    case 1
    then show ?thesis
      by (simp add: vanleer_double_def dabs_def Let_def num ddiv_def is_inf_def is_zero_def
          sign_bit_def signed_zero_def)
  next
    case 2
    then show ?thesis
      by (simp add: vanleer_double_def dabs_def Let_def num ddiv_def is_inf_def is_zero_def
          sign_bit_def dval_def round_double_def signed_zero_def)
  qed
next
  assume "0 < theta \<and> 2 * theta \<le> max_double"
  then have pos: "0 < theta" and nov: "2 * theta \<le> max_double" by simp_all
  have rep2: "representable (2 * theta)"
    by (rule representable_double [OF assms]) (use pos nov in simp)
  have sum: "dadd (Finite theta) (Finite theta) = Finite (2 * theta)"
    using pos round_representable [OF rep2, of False]
    by (simp add: dadd_def is_inf_def dval_def Let_def)
  have num: "dmul (Finite (1 / 2)) (Finite (2 * theta)) = Finite theta"
    using pos round_representable [OF assms, of False]
    by (simp add: dmul_def is_inf_def is_zero_def dval_def sign_bit_def Let_def)
  from one_plus_cases [of theta] pos assms
  consider "dadd (Finite 1) (Finite theta) = PlusInf"
    | d where "dadd (Finite 1) (Finite theta) = Finite d" "1 \<le> d" "theta \<le> d"
    by auto
  then show "\<exists>v. vanleer_double (Finite theta) = Finite v \<and> 0 \<le> v \<and> v \<le> 1"
  proof cases
    case 1
    then have "vanleer_double (Finite theta) = Finite 0"
      using pos
      by (simp add: vanleer_double_def dabs_def Let_def sum num ddiv_def is_inf_def is_zero_def
          sign_bit_def signed_zero_def)
    then show ?thesis by simp
  next
    case 2
    have "0 < theta / d" "theta / d \<le> 1" using pos 2 by simp_all
    from round_le_repr [OF this representable_one, of False]
    obtain v where v: "round_double False (theta / d) = Finite v" "0 \<le> v" "v \<le> 1" by blast
    have "vanleer_double (Finite theta) = round_double False (theta / d)"
      using pos 2
      by (simp add: vanleer_double_def dabs_def Let_def sum num ddiv_def is_inf_def is_zero_def
          sign_bit_def dval_def)
    then show ?thesis using v by simp
  qed
qed

lemma vanleer_double_negzero: "vanleer_double NegZero = Finite 0"
proof -
  have "dadd (Finite 1) (Finite 0) = Finite 1"
    using round_representable [OF representable_one, of False]
    by (simp add: dadd_def is_inf_def dval_def Let_def)
  then show ?thesis
    by (simp add: vanleer_double_def dabs_def Let_def dadd_def dmul_def ddiv_def is_inf_def
        is_zero_def dval_def sign_bit_def signed_zero_def round_double_def)
qed

lemma vanleer_double_1e17: "vanleer_double (Finite 100000000000000000) = Finite 1"
proof -
  have a: "dadd (Finite 100000000000000000) (Finite 100000000000000000) = Finite 200000000000000000"
    using round_double_near [of 200000000000000000 57 6250000000000000 False] max_double_large
    by (simp add: dadd_def is_inf_def dval_def Let_def)
  have b: "dmul (Finite (1 / 2)) (Finite 200000000000000000) = Finite 100000000000000000"
    using round_double_near [of 100000000000000000 56 6250000000000000 False] max_double_large
    by (simp add: dmul_def is_inf_def is_zero_def dval_def sign_bit_def Let_def)
  have c: "dadd (Finite 1) (Finite 100000000000000000) = Finite 100000000000000000"
    using round_double_near [of 100000000000000001 56 6250000000000000 False] max_double_large
    by (simp add: dadd_def is_inf_def dval_def Let_def)
  have d: "ddiv (Finite 100000000000000000) (Finite 100000000000000000) = Finite 1"
    by (simp add: ddiv_def is_inf_def is_zero_def dval_def sign_bit_def Let_def round_double_def
        quantum_def binade_def round_even_def max_double_def powr_minus)
  show ?thesis
    by (simp add: vanleer_double_def dabs_def Let_def a b c d)
qed

lemma vanleer_double_overflow: "vanleer_double (Finite (2 ^ 1023)) = PlusInf"
proof -
  define big :: real where "big = 2 ^ 1023"
  have pos: "0 < big" by (simp add: big_def)
  have "round_double False (2 * big) = PlusInf"
  proof (rule round_double_over [where n = 1024 and m = "2 ^ 52"])
    show "0 < 2 * big" using pos by simp
    show "2 ^ 1024 \<le> 2 * big" by (simp add: big_def)
    show "2 * big < 2 ^ (1024 + 1)" by (simp add: big_def)
    show "52 \<le> (1024::nat)" by simp
    show "\<bar>2 * big / 2 ^ (1024 - 52) - real_of_int (2 ^ 52)\<bar> < 1 / 2" by (simp add: big_def)
    show "max_double < 2 ^ (1024 - 52) * real_of_int (2 ^ 52)"
      using max_double_less by simp
  qed
  then have a: "dadd (Finite big) (Finite big) = PlusInf"
    using pos by (simp add: dadd_def is_inf_def dval_def Let_def)
  have b: "dmul (Finite (1 / 2)) PlusInf = PlusInf"
    by (simp add: dmul_def is_inf_def is_zero_def sign_bit_def signed_inf_def)
  have "round_double False (1 + big) = Finite (2 ^ (1023 - 52) * real_of_int (2 ^ 52))"
  proof (rule round_double_near [where n = 1023 and m = "2 ^ 52"])
    show "0 < 1 + big" using pos by simp
    show "2 ^ 1023 \<le> 1 + big" by (simp add: big_def)
    show "1 + big < 2 ^ (1023 + 1)" by (simp add: big_def)
    show "52 \<le> (1023::nat)" by simp
    show "\<bar>(1 + big) / 2 ^ (1023 - 52) - real_of_int (2 ^ 52)\<bar> < 1 / 2"
      by (simp add: big_def add_divide_distrib)
    show "2 ^ (1023 - 52) * real_of_int (2 ^ 52) \<le> max_double"
      using max_double_ge by simp
    show "0 < (2::int) ^ 52" by simp
  qed
  moreover have "2 ^ (1023 - 52) * real_of_int (2 ^ 52) = big" by (simp add: big_def)
  ultimately have c: "dadd (Finite 1) (Finite big) = Finite big"
    using pos by (simp add: dadd_def is_inf_def dval_def Let_def)
  have d: "ddiv PlusInf (Finite big) = PlusInf"
    using pos by (simp add: ddiv_def is_inf_def is_zero_def sign_bit_def signed_inf_def)
  have "vanleer_double (Finite big) = PlusInf"
    using pos by (simp add: vanleer_double_def dabs_def Let_def a b c d)
  then show ?thesis by (simp only: big_def)
qed

lemma representable_half: "representable (1 / 2)"
proof -
  have "binade (1 / 2) = - 1"
    unfolding binade_def by (subst floor_log_eq_powr_iff) (simp_all add: powr_minus)
  then have "quantum (1 / 2) = 2 powr real_of_int (- 53)" by (simp add: quantum_def)
  moreover have "2 powr real_of_int (- 1) = 2 powr real_of_int (- 53) * real_of_int (2 ^ nat (- 1 - (- 53)))"
    by (rule pow2_multiple) simp
  ultimately have "1 / 2 = quantum (1 / 2) * real_of_int (2 ^ 52)" by (simp add: powr_minus)
  then have "\<exists>m::int. 1 / 2 = quantum (1 / 2) * real_of_int m" by (rule exI)
  then show ?thesis using max_double_ge_one unfolding representable_iff by fastforce
qed

lemma vanleer_double_one: "vanleer_double (Finite 1) = Finite (1 / 2)"
proof -
  have two: "representable 2"
    using representable_double [OF representable_one] max_double_large by simp
  have a: "dadd (Finite 1) (Finite 1) = Finite 2"
    using round_representable [OF two, of False]
    by (simp add: dadd_def is_inf_def dval_def Let_def)
  have b: "dmul (Finite (1 / 2)) (Finite 2) = Finite 1"
    using round_representable [OF representable_one, of False]
    by (simp add: dmul_def is_inf_def is_zero_def dval_def sign_bit_def Let_def)
  have c: "ddiv (Finite 1) (Finite 2) = Finite (1 / 2)"
    using round_representable [OF representable_half, of False]
    by (simp add: ddiv_def is_inf_def is_zero_def dval_def sign_bit_def Let_def)
  show ?thesis
    by (simp add: vanleer_double_def dabs_def Let_def a b c)
qed

lemma vanleer_double_beyond:
  assumes "representable theta" "max_double < 2 * theta"
  shows "vanleer_double (Finite theta) = PlusInf"
proof -
  have pos: "0 < theta" using assms(2) max_double_ge_one by linarith
  have big: "2 ^ 1023 \<le> theta"
  proof (rule ccontr)
    assume "\<not> 2 ^ 1023 \<le> theta"
    then have "theta < 2 ^ 1023" by simp
    from representable_small [OF assms(1) pos this] assms(2) show False by simp
  qed
  have "round_double False (theta + theta) = PlusInf"
    by (rule round_double_huge) (use big in simp)
  then have a: "dadd (Finite theta) (Finite theta) = PlusInf"
    using pos by (simp add: dadd_def is_inf_def dval_def Let_def)
  have b: "dmul (Finite (1 / 2)) PlusInf = PlusInf"
    by (simp add: dmul_def is_inf_def is_zero_def sign_bit_def signed_inf_def)
  have c: "dadd (Finite 1) (Finite theta) = Finite theta"
    by (rule one_plus_big [OF assms(1) big])
  have d: "ddiv PlusInf (Finite theta) = PlusInf"
    using pos by (simp add: ddiv_def is_inf_def is_zero_def sign_bit_def signed_inf_def)
  show ?thesis
    using pos by (simp add: vanleer_double_def dabs_def Let_def a b c d)
qed

text \<open>
  Claim C7, as the claim states it, fails for the function that the program runs. The
  claim puts \<open>vanleer theta\<close> in the interval \<open>[0, 1)\<close> for every finite \<open>theta\<close>. At the
  double \<open>theta = 1e17\<close> the sum \<open>1.0 + abstheta\<close> rounds to \<open>1e17\<close>, and the function
  returns exactly \<open>1\<close>; at the double \<open>theta = 2 ^ 1023\<close> the sum \<open>theta + abstheta\<close>
  overflows, and the function returns the positive infinity.
\<close>

theorem vanleer_double_reaches_one:
  "representable 100000000000000000
   \<and> vanleer_double (Finite 100000000000000000) = Finite 1
   \<and> representable (2 ^ 1023)
   \<and> vanleer_double (Finite (2 ^ 1023)) = PlusInf"
  by (intro conjI representable_1e17 vanleer_double_1e17 representable_2p1023
      vanleer_double_overflow)

text \<open>
  Claim C7, amended. For every finite double \<open>theta\<close>, \<open>vanleer theta\<close> is
  \<open>0.5 * (theta + |theta|) / (1 + |theta|)\<close> in the arithmetic of doubles; it is \<open>0\<close> when
  \<open>theta \<le> 0\<close>, for the zero of either sign too; it is a finite double in the closed
  interval \<open>[0, 1]\<close> when \<open>theta > 0\<close> and \<open>theta + abstheta\<close> does not overflow, that is
  \<open>2 * theta \<le> max_double\<close>, and the positive infinity when it overflows; and
  \<open>centered\<close> returns \<open>0.5\<close> for every double, a NaN or an infinity too.
\<close>

theorem limiter_double_bounds:
  assumes "representable theta"
  shows "vanleer_double d
         = ddiv (dmul (Finite 0.5) (dadd d (dabs d))) (dadd (Finite 1.0) (dabs d))
       \<and> (theta \<le> 0 \<longrightarrow> vanleer_double (Finite theta) = Finite 0)
       \<and> vanleer_double NegZero = Finite 0
       \<and> (0 < theta \<and> 2 * theta \<le> max_double \<longrightarrow>
            (\<exists>v. vanleer_double (Finite theta) = Finite v \<and> 0 \<le> v \<and> v \<le> 1))
       \<and> (max_double < 2 * theta \<longrightarrow> vanleer_double (Finite theta) = PlusInf)
       \<and> centered_double d = Finite 0.5"
proof -
  have "vanleer_double d
      = ddiv (dmul (Finite 0.5) (dadd d (dabs d))) (dadd (Finite 1.0) (dabs d))"
    by (simp add: vanleer_double_def Let_def)
  moreover have "centered_double d = Finite 0.5"
    by (simp add: centered_double_def)
  ultimately show ?thesis
    using vanleer_double_bounds [OF assms] vanleer_double_negzero
      vanleer_double_beyond [OF assms] by blast
qed

theorem limiter_double_bounds_witness:
  "representable 1
   \<and> vanleer_double (Finite 1) = Finite (1 / 2)
   \<and> (\<exists>v. vanleer_double (Finite 1) = Finite v \<and> 0 \<le> v \<and> v \<le> 1)
   \<and> representable (- 1)
   \<and> vanleer_double (Finite (- 1)) = Finite 0
   \<and> representable (2 ^ 1023)
   \<and> max_double < 2 * 2 ^ 1023
   \<and> vanleer_double (Finite (2 ^ 1023)) = PlusInf
   \<and> centered_double NaN = Finite 0.5"
proof -
  have r1: "representable 1" by (rule representable_one)
  have r2: "representable (- 1)" by (simp add: representable_minus representable_one)
  have two: "2 * 1 \<le> max_double" using max_double_large by simp
  have r3: "representable (2 ^ 1023)" by (rule representable_2p1023)
  have over: "max_double < 2 * 2 ^ 1023" using max_double_less by simp
  note big = limiter_double_bounds [OF r3, of NaN, THEN conjunct2, THEN conjunct2,
      THEN conjunct2, THEN conjunct2, THEN conjunct1, THEN mp, OF over]
  from limiter_double_bounds [OF r1, of NaN] limiter_double_bounds [OF r2, of NaN] r1 r2 two
  have "vanleer_double (Finite 1) = Finite (1 / 2)
      \<and> (\<exists>v. vanleer_double (Finite 1) = Finite v \<and> 0 \<le> v \<and> v \<le> 1)
      \<and> vanleer_double (Finite (- 1)) = Finite 0
      \<and> centered_double NaN = Finite 0.5"
    by (simp add: vanleer_double_one)
  with r1 r2 r3 over big show ?thesis by (intro conjI) blast+
qed

subsection \<open>Properties of loops\<close>

text \<open>
  A relation between two states that every pass of two loop bodies keeps holds between
  the results of the two loops; equal bodies on the index range give equal loops, and
  an invariant of the body is an invariant of the loop.
\<close>

lemma for_loop_rel:
  assumes "R s t"
    and "\<And>i s t. lo \<le> i \<Longrightarrow> i < hi \<Longrightarrow> R s t \<Longrightarrow> R (f i s) (g i t)"
  shows "R (for_loop lo hi f s) (for_loop lo hi g t)"
  using assms
proof (induction lo hi f s arbitrary: t rule: for_loop.induct)
  case (1 i hi body s)
  show ?case
  proof (cases "i < hi")
    case True
    have step: "R (body i s) (g i t)"
      using "1.prems" True by simp
    have "R (for_loop (i + 1) hi body (body i s)) (for_loop (i + 1) hi g (g i t))"
      by (rule "1.IH" [OF True step]) (use "1.prems"(2) in simp)
    then show ?thesis
      using True by (simp add: for_loop.simps [of i])
  next
    case False
    then show ?thesis
      using "1.prems"(1) by (simp add: for_loop.simps [of i])
  qed
qed

lemma for_loop_cong_range:
  assumes "\<And>i s. lo \<le> i \<Longrightarrow> i < hi \<Longrightarrow> f i s = g i s"
  shows "for_loop lo hi f s = for_loop lo hi g s"
  by (rule for_loop_rel [where R = "(=)"]) (simp_all add: assms)

lemma for_loop_inv:
  assumes "P s" and "\<And>i s. lo \<le> i \<Longrightarrow> i < hi \<Longrightarrow> P s \<Longrightarrow> P (f i s)"
  shows "P (for_loop lo hi f s)"
  using for_loop_rel [where R = "\<lambda>s t. P s" and f = f and g = f and s = s and t = s and lo = lo and hi = hi] assms
  by blast

lemma for_loop_fill:
  assumes "\<And>i a. body i a = (\<lambda>c. if S i c then v else a c)"
  shows "for_loop lo hi body a = (\<lambda>c. if \<exists>i. lo \<le> i \<and> i < hi \<and> S i c then v else a c)"
proof (induction "nat (hi - lo)" arbitrary: lo a)
  case 0
  then have "\<not> lo < hi" by simp
  then show ?case by (intro ext) (auto simp: for_loop.simps [of lo])
next
  case (Suc n)
  then have lt: "lo < hi" and n: "n = nat (hi - (lo + 1))" by auto
  have "for_loop lo hi body a = for_loop (lo + 1) hi body (body lo a)"
    using lt by (simp add: for_loop.simps [of lo])
  also have "\<dots> = (\<lambda>c. if \<exists>i. lo + 1 \<le> i \<and> i < hi \<and> S i c then v else body lo a c)"
    by (rule Suc.hyps(1) [OF n])
  also have "\<dots> = (\<lambda>c. if \<exists>i. lo \<le> i \<and> i < hi \<and> S i c then v else a c)"
  proof (rule ext)
    fix c
    have split: "(\<exists>i. lo \<le> i \<and> i < hi \<and> S i c)
                 \<longleftrightarrow> S lo c \<or> (\<exists>i. lo + 1 \<le> i \<and> i < hi \<and> S i c)"
    proof
      assume "\<exists>i. lo \<le> i \<and> i < hi \<and> S i c"
      then obtain i where i: "lo \<le> i" "i < hi" "S i c" by blast
      show "S lo c \<or> (\<exists>i. lo + 1 \<le> i \<and> i < hi \<and> S i c)"
      proof (cases "i = lo")
        case True
        with i show ?thesis by simp
      next
        case False
        with i have "lo + 1 \<le> i" by simp
        with i show ?thesis by blast
      qed
    next
      assume "S lo c \<or> (\<exists>i. lo + 1 \<le> i \<and> i < hi \<and> S i c)"
      then show "\<exists>i. lo \<le> i \<and> i < hi \<and> S i c"
      proof
        assume "S lo c"
        with lt show ?thesis by blast
      next
        assume "\<exists>i. lo + 1 \<le> i \<and> i < hi \<and> S i c"
        then obtain i where "lo + 1 \<le> i" "i < hi" "S i c" by blast
        then have "lo \<le> i \<and> i < hi \<and> S i c" by simp
        then show ?thesis ..
      qed
    qed
    show "(if \<exists>i. lo + 1 \<le> i \<and> i < hi \<and> S i c then v else body lo a c)
          = (if \<exists>i. lo \<le> i \<and> i < hi \<and> S i c then v else a c)"
      unfolding split assms by auto
  qed
  finally show ?case .
qed


subsection \<open>The flux through a face\<close>

lemma face_flux_no_error:
  "\<exists>v. face_flux a_wind info au usr halfx halfy halfz x y z k j i q = Inr v"
  by (simp add: face_flux_def fdiv_def Let_def split: option.splits)

lemma face_flux_no_limiter:
  "limiter_fcn usr = None \<Longrightarrow>
   face_flux a_wind info au usr halfx halfy halfz x y z k j i q
   = Inr (face_wind a_wind usr halfx halfy halfz x y z q
          * upwind_value au (face_wind a_wind usr halfx halfy halfz x y z q) k j i q)"
  by (simp add: face_flux_def Let_def)


text \<open>
  Claim C6. With the limiter \<open>none\<close> (a null \<open>limiter_fcn\<close>), for every face, field and
  wind value \<open>a\<close>, the flux is exactly \<open>a * u_up\<close>, where \<open>u_up\<close> is the value of the
  cell itself when \<open>a \<ge> 0\<close> and of its neighbour in direction \<open>q\<close> when \<open>a < 0\<close>; this is
  the flux the loop over \<open>q\<close> hands to the accumulation, with no correction term.
\<close>

theorem upwind_reduction:
  assumes "limiter_fcn usr = None"
  shows "face_flux a_wind info au usr halfx halfy halfz x y z k j i q
         = Inr (face_wind a_wind usr halfx halfy halfz x y z q
                * upwind_value au (face_wind a_wind usr halfx halfy halfz x y z q) k j i q)
       \<and> upwind_value au a k j i q
         = (if a \<ge> 0 then au (k, j, i)
            else au (k + (if q = 2 then 1 else 0), j + (if q = 1 then 1 else 0),
                     i + (if q = 0 then 1 else 0)))
       \<and> (\<not> (q < 2 \<and> k < zs info) \<longrightarrow>
            flux_step a_wind info au usr hx hy hz halfx halfy halfz x y z k j i q (Inr aF)
            = Inr (accumulate info hx hy hz k j i q
                (face_wind a_wind usr halfx halfy halfz x y z q
                 * upwind_value au (face_wind a_wind usr halfx halfy halfz x y z q) k j i q) aF))"
  using assms
  by (simp add: face_flux_no_limiter flux_step_def upwind_value_def face_offset_def)

theorem upwind_reduction_witness:
  "limiter_fcn ctx_upwind = None
   \<and> face_flux wind_east grid_665 au_layers ctx_upwind (1/5) (1/5) (1/5) (-1/5) (-1/5) (-4/5)
        0 2 2 0 = Inr 1
   \<and> flux_step wind_east grid_665 au_layers ctx_upwind (2/5) (2/5) (2/5) (1/5) (1/5) (1/5)
        (-1/5) (-1/5) (-4/5) 0 2 2 0 (Inr au_ones)
      = Inr (accumulate grid_665 (2/5) (2/5) (2/5) 0 2 2 0 1 au_ones)"
  using upwind_reduction [of ctx_upwind wind_east grid_665 au_layers "1/5" "1/5" "1/5"
      "-1/5" "-1/5" "-4/5" 0 2 2 0 1 "2/5" "2/5" "2/5" au_ones]
  by (simp add: ctx_upwind_def grid_665_def wind_east_def layer_a_def au_layers_def
      face_wind_def face_offset_def)

subsection \<open>The routine never divides by zero\<close>

lemma flux_step_no_error:
  "no_error s \<Longrightarrow>
   no_error (flux_step a_wind info au usr hx hy hz halfx halfy halfz x y z k j i q s)"
  using face_flux_no_error [of a_wind info au usr halfx halfy halfz x y z k j i q]
  by (auto simp: no_error_def flux_step_def)

lemma cell_step_no_error:
  assumes "no_error s"
  shows "no_error (cell_step a_wind g_source b_bdry info au usr hx hy hz y z k j i s)"
proof -
  from assms obtain aF where s: "s = Inr aF" by (auto simp: no_error_def)
  have loop: "no_error (for_loop 0 3
      (flux_step a_wind info au usr hx hy hz halfx halfy halfz x y z k j i) (Inr a))"
    for halfx halfy halfz x and a :: array3
    by (rule for_loop_inv [where P = no_error])
      (simp_all add: no_error_def [of "Inr a"] flux_step_no_error)
  show ?thesis
    by (simp add: cell_step_def s Let_def loop) (simp add: no_error_def)
qed

lemma FormFunctionLocal_no_error:
  "no_error (FormFunctionLocal a_wind g_source b_bdry info au aF usr)"
  unfolding FormFunctionLocal_def Let_def
  by (intro for_loop_inv [where P = no_error] cell_step_no_error) (simp add: no_error_def)

subsection \<open>The residual does not depend on the array it is written to\<close>

lemma clear_F_eq: "clear_F info aF = (\<lambda>c. if owned info c then 0 else aF c)"
proof -
  have l1: "for_loop (xs info) (xs info + xm info) (\<lambda>i aF. aF((k, j, i) := 0)) a
     = (\<lambda>c. if \<exists>i. xs info \<le> i \<and> i < xs info + xm info \<and> c = (k, j, i) then 0 else a c)"
    for k j and a :: array3
    by (rule for_loop_fill) auto
  have l2: "for_loop (ys info) (ys info + ym info)
          (\<lambda>j. for_loop (xs info) (xs info + xm info) (\<lambda>i aF. aF((k, j, i) := 0))) a
     = (\<lambda>c. if \<exists>j. ys info \<le> j \<and> j < ys info + ym info \<and>
             (\<exists>i. xs info \<le> i \<and> i < xs info + xm info \<and> c = (k, j, i)) then 0 else a c)"
    for k and a :: array3
    by (rule for_loop_fill) (simp add: l1)
  have l3: "for_loop (zs info) (zs info + zm info)
      (\<lambda>k. for_loop (ys info) (ys info + ym info)
          (\<lambda>j. for_loop (xs info) (xs info + xm info) (\<lambda>i aF. aF((k, j, i) := 0)))) aF
     = (\<lambda>c. if \<exists>k. zs info \<le> k \<and> k < zs info + zm info \<and> (\<exists>j. ys info \<le> j \<and> j < ys info + ym info \<and>
             (\<exists>i. xs info \<le> i \<and> i < xs info + xm info \<and> c = (k, j, i))) then 0 else aF c)"
    by (rule for_loop_fill) (simp add: l2)
  have own: "owned info c \<longleftrightarrow> (\<exists>k. zs info \<le> k \<and> k < zs info + zm info \<and> (\<exists>j. ys info \<le> j \<and> j < ys info + ym info \<and>
             (\<exists>i. xs info \<le> i \<and> i < xs info + xm info \<and> c = (k, j, i))))" for c
    by (cases c) (auto simp: owned_def)
  show ?thesis
    unfolding clear_F_def by (simp add: l3 own)
qed

lemma agree_upd: "agree S a b \<Longrightarrow> agree S (a(p := v)) (b(p := v))"
  by (auto simp: agree_def)

lemma agree_upd_add: "agree S a b \<Longrightarrow> agree S (a(p := a p + v)) (b(p := b p + v))"
  by (auto simp: agree_def)

lemma agree_upd_sub: "agree S a b \<Longrightarrow> agree S (a(p := a p - v)) (b(p := b p - v))"
  by (auto simp: agree_def)

lemma agree_if:
  "(c \<Longrightarrow> agree S a1 b1) \<Longrightarrow> (\<not> c \<Longrightarrow> agree S a2 b2)
   \<Longrightarrow> agree S (if c then a1 else a2) (if c then b1 else b2)"
  by simp

lemma nonadvective_agree:
  assumes "agree S a b"
  shows "agree S (nonadvective g_source b_bdry info au usr hx2 hy2 hz2 x y z k j i a)
                 (nonadvective g_source b_bdry info au usr hx2 hy2 hz2 x y z k j i b)"
  unfolding nonadvective_def Let_def
  by (intro agree_if agree_upd agree_upd_sub assms)

lemma accumulate_agree:
  assumes "agree S a b"
  shows "agree S (accumulate info hx hy hz k j i q flux a)
                 (accumulate info hx hy hz k j i q flux b)"
  unfolding accumulate_def Let_def
  by (intro agree_if agree_upd_add agree_upd_sub assms)

lemma flux_step_agree:
  assumes "agree_on S s t"
  shows "agree_on S (flux_step a_wind info au usr hx hy hz halfx halfy halfz x y z k j i q s)
                    (flux_step a_wind info au usr hx hy hz halfx halfy halfz x y z k j i q t)"
proof (cases s)
  case (Inl e)
  with assms show ?thesis by (simp add: agree_on_def flux_step_def)
next
  case (Inr a)
  with assms obtain b where t: "t = Inr b" and ab: "agree S a b"
    by (auto simp: agree_on_def split: sum.splits)
  show ?thesis
    using accumulate_agree [OF ab]
    by (simp add: flux_step_def Inr t agree_on_def ab split: sum.splits)
qed

lemma cell_step_agree:
  assumes "agree_on S s t"
  shows "agree_on S (cell_step a_wind g_source b_bdry info au usr hx hy hz y z k j i s)
                    (cell_step a_wind g_source b_bdry info au usr hx hy hz y z k j i t)"
proof (cases s)
  case (Inl e)
  with assms show ?thesis by (simp add: agree_on_def cell_step_def)
next
  case (Inr a)
  with assms obtain b where t: "t = Inr b" and ab: "agree S a b"
    by (auto simp: agree_on_def split: sum.splits)
  let ?x = "-1.0 + real_of_int i * hx"
  let ?a1 = "nonadvective g_source b_bdry info au usr (hx * hx) (hy * hy) (hz * hz) ?x y z k j i a"
  let ?b1 = "nonadvective g_source b_bdry info au usr (hx * hx) (hy * hy) (hz * hz) ?x y z k j i b"
  have start: "agree_on S (Inr ?a1) (Inr ?b1)"
    using nonadvective_agree [OF ab] by (simp add: agree_on_def)
  have loop: "agree_on S
      (for_loop 0 3 (flux_step a_wind info au usr hx hy hz (hx / 2.0) (hy / 2.0) (hz / 2.0) ?x y z k j i) (Inr ?a1))
      (for_loop 0 3 (flux_step a_wind info au usr hx hy hz (hx / 2.0) (hy / 2.0) (hz / 2.0) ?x y z k j i) (Inr ?b1))"
    by (rule for_loop_rel [where R = "agree_on S", OF start]) (rule flux_step_agree)
  show ?thesis
    using start loop by (simp add: cell_step_def Inr t Let_def)
qed

lemma FormFunctionLocal_agree:
  "agree_on (owned info)
     (FormFunctionLocal a_wind g_source b_bdry info au aF1 usr)
     (FormFunctionLocal a_wind g_source b_bdry info au aF2 usr)"
proof -
  have start: "agree_on (owned info) (Inr (clear_F info aF1)) (Inr (clear_F info aF2))"
    by (simp add: agree_on_def agree_def clear_F_eq)
  show ?thesis
    unfolding FormFunctionLocal_def Let_def
  proof (rule for_loop_rel [where R = "agree_on (owned info)", OF start])
    fix k s t
    assume "agree_on (owned info) s t"
    then show "agree_on (owned info)
      (for_loop (ys info) (ys info + ym info)
         (\<lambda>j. for_loop (xs info) (xs info + xm info)
            (cell_step a_wind g_source b_bdry info au usr (2.0 / real_of_int (mx info - 1))
               (2.0 / real_of_int (my info - 1)) (2.0 / real_of_int (mz info))
               (-1.0 + real_of_int j * (2.0 / real_of_int (my info - 1)))
               (-1.0 + (real_of_int k + 0.5) * (2.0 / real_of_int (mz info))) k j)) s)
      (for_loop (ys info) (ys info + ym info)
         (\<lambda>j. for_loop (xs info) (xs info + xm info)
            (cell_step a_wind g_source b_bdry info au usr (2.0 / real_of_int (mx info - 1))
               (2.0 / real_of_int (my info - 1)) (2.0 / real_of_int (mz info))
               (-1.0 + real_of_int j * (2.0 / real_of_int (my info - 1)))
               (-1.0 + (real_of_int k + 0.5) * (2.0 / real_of_int (mz info))) k j)) t)"
    proof (rule for_loop_rel [where R = "agree_on (owned info)"])
      fix j s t
      assume "agree_on (owned info) s t"
      then show "agree_on (owned info)
        (for_loop (xs info) (xs info + xm info)
            (cell_step a_wind g_source b_bdry info au usr (2.0 / real_of_int (mx info - 1))
               (2.0 / real_of_int (my info - 1)) (2.0 / real_of_int (mz info))
               (-1.0 + real_of_int j * (2.0 / real_of_int (my info - 1)))
               (-1.0 + (real_of_int k + 0.5) * (2.0 / real_of_int (mz info))) k j) s)
        (for_loop (xs info) (xs info + xm info)
            (cell_step a_wind g_source b_bdry info au usr (2.0 / real_of_int (mx info - 1))
               (2.0 / real_of_int (my info - 1)) (2.0 / real_of_int (mz info))
               (-1.0 + real_of_int j * (2.0 / real_of_int (my info - 1)))
               (-1.0 + (real_of_int k + 0.5) * (2.0 / real_of_int (mz info))) k j) t)"
        by (rule for_loop_rel [where R = "agree_on (owned info)"]) (rule cell_step_agree)
    qed
  qed
qed

text \<open>
  Claim C10. The residual is independent of the initial contents of \<open>aF\<close>: the routine
  first sets every owned entry to zero, and for two initial arrays and the same field,
  grid and context it leaves the same value at every owned cell.
\<close>

theorem residual_independent_of_initial_aF:
  assumes "owned info c"
  shows "clear_F info aF1 c = 0
       \<and> residual_at (FormFunctionLocal a_wind g_source b_bdry info au aF1 usr) c
         = residual_at (FormFunctionLocal a_wind g_source b_bdry info au aF2 usr) c"
  using assms FormFunctionLocal_agree [of info a_wind g_source b_bdry au aF1 usr aF2]
  by (cases c)
    (auto simp: agree_on_def agree_def residual_at_def clear_F_eq split: sum.splits)

theorem residual_independent_of_initial_aF_witness:
  "owned grid_332 (0, 1, 1)
   \<and> residual_at (FormFunctionLocal wind_east g_zero b_zero grid_332 au_layers au_ones ctx_vanleer)
       (0, 1, 1)
     = residual_at (FormFunctionLocal wind_east g_zero b_zero grid_332 au_layers au_layers ctx_vanleer)
       (0, 1, 1)"
  using residual_independent_of_initial_aF [of grid_332 "(0, 1, 1)" au_ones wind_east g_zero
      b_zero au_layers ctx_vanleer au_layers]
  by (simp add: owned_def grid_332_def)

subsection \<open>The flux through the top faces\<close>

text \<open>
  The labels of the \<^verbatim>\<open>switch\<close> are \<open>0\<close>, \<open>1\<close> and \<open>3\<close>, and \<open>q\<close> runs over \<open>0\<close>,
  \<open>1\<close> and \<open>2\<close>: the pass for \<open>q = 2\<close> changes nothing, and the residual is the same
  for two winds that differ in their third component only.
\<close>

lemma accumulate_top: "accumulate info hx hy hz k j i 2 flux aF = aF"
  by (simp add: accumulate_def)

lemma flux_step_top:
  "flux_step a_wind info au usr hx hy hz halfx halfy halfz x y z k j i 2 s = s"
proof -
  obtain v where "face_flux a_wind info au usr halfx halfy halfz x y z k j i 2 = Inr v"
    using face_flux_no_error by blast
  then show ?thesis
    by (simp add: flux_step_def accumulate_top split: sum.splits)
qed

lemma for_loop_0_3: "for_loop 0 3 f s = f 2 (f 1 (f 0 s))"
  by (simp add: for_loop.simps [of 0] for_loop.simps [of 1] for_loop.simps [of 2]
      for_loop.simps [of 3])

lemma face_wind_cong:
  assumes "\<And>x y z usr. a_wind x y z q usr = a_wind' x y z q usr"
  shows "face_wind a_wind usr halfx halfy halfz x y z q = face_wind a_wind' usr halfx halfy halfz x y z q"
  by (simp add: face_wind_def assms split: prod.splits)

lemma flux_step_wind_cong:
  assumes "\<And>x y z usr. a_wind x y z q usr = a_wind' x y z q usr"
  shows "flux_step a_wind info au usr hx hy hz halfx halfy halfz x y z k j i q s
       = flux_step a_wind' info au usr hx hy hz halfx halfy halfz x y z k j i q s"
  by (cases s) (simp_all add: flux_step_def face_flux_def face_wind_cong [of a_wind q a_wind', OF assms])

lemma cell_step_wind_cong:
  assumes "\<And>x y z q usr. q \<noteq> 2 \<Longrightarrow> a_wind x y z q usr = a_wind' x y z q usr"
  shows "cell_step a_wind g_source b_bdry info au usr hx hy hz y z k j i s
       = cell_step a_wind' g_source b_bdry info au usr hx hy hz y z k j i s"
proof -
  have q0: "flux_step a_wind info au usr hx hy hz halfx halfy halfz x y z k j i 0 s
       = flux_step a_wind' info au usr hx hy hz halfx halfy halfz x y z k j i 0 s"
    for halfx halfy halfz x s
    by (rule flux_step_wind_cong) (simp add: assms)
  have q1: "flux_step a_wind info au usr hx hy hz halfx halfy halfz x y z k j i 1 s
       = flux_step a_wind' info au usr hx hy hz halfx halfy halfz x y z k j i 1 s"
    for halfx halfy halfz x s
    by (rule flux_step_wind_cong) (simp add: assms)
  show ?thesis
    by (cases s) (simp_all add: cell_step_def for_loop_0_3 flux_step_top q0 q1 Let_def)
qed

lemma FormFunctionLocal_wind_cong:
  assumes "\<And>x y z q usr. q \<noteq> 2 \<Longrightarrow> a_wind x y z q usr = a_wind' x y z q usr"
  shows "FormFunctionLocal a_wind g_source b_bdry info au aF usr
       = FormFunctionLocal a_wind' g_source b_bdry info au aF usr"
proof -
  have "cell_step a_wind g_source b_bdry info au usr hx hy hz y z k j
      = cell_step a_wind' g_source b_bdry info au usr hx hy hz y z k j" for hx hy hz y z k j
    by (intro ext) (rule cell_step_wind_cong [OF assms])
  then show ?thesis
    by (simp add: FormFunctionLocal_def)
qed

subsection \<open>The residual of a cell from the fluxes through its faces\<close>

text \<open>The routine is the loop nest of the passes.\<close>

lemma FormFunctionLocal_pass:
  "FormFunctionLocal a_wind g_source b_bdry info au aF usr =
     for_loop (zs info - 1) (zs info + zm info)
       (\<lambda>k. for_loop (ys info) (ys info + ym info)
          (\<lambda>j. for_loop (xs info) (xs info + xm info)
             (pass a_wind g_source b_bdry info au usr k j)))
       (Inr (clear_F info aF))"
  unfolding FormFunctionLocal_def pass_def grid_hx_def grid_hy_def grid_hz_def cell_y_def
    cell_z_def Let_def
  by (rule refl)




























subsection \<open>The entries read and the ghost cells\<close>

text \<open>The entries that a pass reads lie in the owned box with its ghost cells.\<close>

lemma in_halo_z:
  "zs info - w \<le> k \<Longrightarrow> k < zs info + zm info + w \<Longrightarrow> ys info \<le> j \<Longrightarrow> j < ys info + ym info
   \<Longrightarrow> xs info \<le> i \<Longrightarrow> i < xs info + xm info \<Longrightarrow> in_halo info w (k, j, i)"
  by (simp add: in_halo_def)

lemma in_halo_y:
  "zs info \<le> k \<Longrightarrow> k < zs info + zm info \<Longrightarrow> ys info - w \<le> j \<Longrightarrow> j < ys info + ym info + w
   \<Longrightarrow> xs info \<le> i \<Longrightarrow> i < xs info + xm info \<Longrightarrow> in_halo info w (k, j, i)"
  by (simp add: in_halo_def)

lemma in_halo_x:
  "zs info \<le> k \<Longrightarrow> k < zs info + zm info \<Longrightarrow> ys info \<le> j \<Longrightarrow> j < ys info + ym info
   \<Longrightarrow> xs info - w \<le> i \<Longrightarrow> i < xs info + xm info + w \<Longrightarrow> in_halo info w (k, j, i)"
  by (simp add: in_halo_def)

lemma nonadvective_reads_subset:
  "set (nonadvective_reads info k j i)
   \<subseteq> (if zs info \<le> k
       then {(k, j, i), (k, j, i + 1), (k, j, i - 1), (k, j + 1, i), (k, j - 1, i),
             (k - 1, j, i), (k + 1, j, i)}
       else {})"
  by (auto simp: nonadvective_reads_def)

lemma nonadvective_reads_halo:
  assumes v: "visited info k j i" and w: "1 \<le> w"
    and c: "c \<in> set (nonadvective_reads info k j i)"
  shows "in_halo info w c"
proof -
  from c nonadvective_reads_subset [of info k j i]
  have k: "zs info \<le> k"
    and "c \<in> {(k, j, i), (k, j, i + 1), (k, j, i - 1), (k, j + 1, i), (k, j - 1, i),
             (k - 1, j, i), (k + 1, j, i)}"
    by (auto split: if_splits)
  then consider "c = (k, j, i)" | "c = (k, j, i + 1)" | "c = (k, j, i - 1)"
    | "c = (k, j + 1, i)" | "c = (k, j - 1, i)" | "c = (k - 1, j, i)" | "c = (k + 1, j, i)"
    by blast
  then show ?thesis
  proof cases
    case 1 then show ?thesis using v w k by (auto simp: visited_def intro!: in_halo_x)
  next
    case 2 then show ?thesis using v w k by (auto simp: visited_def intro!: in_halo_x)
  next
    case 3 then show ?thesis using v w k by (auto simp: visited_def intro!: in_halo_x)
  next
    case 4 then show ?thesis using v w k by (auto simp: visited_def intro!: in_halo_y)
  next
    case 5 then show ?thesis using v w k by (auto simp: visited_def intro!: in_halo_y)
  next
    case 6 then show ?thesis using v w k by (auto simp: visited_def intro!: in_halo_z)
  next
    case 7 then show ?thesis using v w k by (auto simp: visited_def intro!: in_halo_z)
  qed
qed

lemma face_cells_halo:
  assumes v: "visited info k j i" and w: "1 \<le> w"
    and q: "q = 0 \<or> q = 1 \<or> q = 2" "\<not> (q < 2 \<and> k < zs info)"
    and off: "face_offset q = (dk, dj, di)"
  shows "in_halo info w (k, j, i)" "in_halo info w (k + dk, j + dj, i + di)"
    "2 \<le> w \<Longrightarrow> in_halo info w (k - dk, j - dj, i - di)"
    "2 \<le> w \<Longrightarrow> in_halo info w (k + 2 * dk, j + 2 * dj, i + 2 * di)"
proof -
  from q(1) consider "q = 0" | "q = 1" | "q = 2" by blast
  then have "in_halo info w (k, j, i) \<and> in_halo info w (k + dk, j + dj, i + di)
      \<and> (2 \<le> w \<longrightarrow> in_halo info w (k - dk, j - dj, i - di)
          \<and> in_halo info w (k + 2 * dk, j + 2 * dj, i + 2 * di))"
  proof cases
    case 1
    with off have d: "dk = 0" "dj = 0" "di = 1" by (simp_all add: face_offset_def)
    from 1 q(2) have k: "zs info \<le> k" by simp
    show ?thesis
      unfolding d using v w k by (auto simp: visited_def intro!: in_halo_x)
  next
    case 2
    with off have d: "dk = 0" "dj = 1" "di = 0" by (simp_all add: face_offset_def)
    from 2 q(2) have k: "zs info \<le> k" by simp
    show ?thesis
      unfolding d using v w k by (auto simp: visited_def intro!: in_halo_y)
  next
    case 3
    with off have d: "dk = 1" "dj = 0" "di = 0" by (simp_all add: face_offset_def)
    show ?thesis
      unfolding d using v w by (auto simp: visited_def intro!: in_halo_z)
  qed
  then show "in_halo info w (k, j, i)" "in_halo info w (k + dk, j + dj, i + di)"
    "2 \<le> w \<Longrightarrow> in_halo info w (k - dk, j - dj, i - di)"
    "2 \<le> w \<Longrightarrow> in_halo info w (k + 2 * dk, j + 2 * dj, i + 2 * di)"
    by simp_all
qed

lemma face_reads_subset:
  "set (face_reads a_wind info au usr halfx halfy halfz x y z k j i q)
   \<subseteq> (case face_offset q of (dk, dj, di) \<Rightarrow>
        {(k, j, i), (k + dk, j + dj, i + di)}
        \<union> (if limiter_fcn usr = None then {}
           else {(k - dk, j - dj, i - di), (k + 2 * dk, j + 2 * dj, i + 2 * di)}))"
  by (cases "limiter_fcn usr")
    (auto simp: face_reads_def Let_def split: prod.splits)

lemma face_reads_halo:
  assumes v: "visited info k j i" and w: "1 \<le> w" "limiter_fcn usr \<noteq> None \<Longrightarrow> 2 \<le> w"
    and q: "q = 0 \<or> q = 1 \<or> q = 2" "\<not> (q < 2 \<and> k < zs info)"
    and c: "c \<in> set (face_reads a_wind info au usr halfx halfy halfz x y z k j i q)"
  shows "in_halo info w c"
proof -
  obtain dk dj di where off: "face_offset q = (dk, dj, di)"
    by (cases "face_offset q") auto
  note cells = face_cells_halo [OF v w(1) q off]
  from c face_reads_subset [of a_wind info au usr halfx halfy halfz x y z k j i q]
  have "c \<in> {(k, j, i), (k + dk, j + dj, i + di)}
        \<union> (if limiter_fcn usr = None then {}
           else {(k - dk, j - dj, i - di), (k + 2 * dk, j + 2 * dj, i + 2 * di)})"
    by (auto simp: off)
  then consider "c = (k, j, i)" | "c = (k + dk, j + dj, i + di)"
    | "limiter_fcn usr \<noteq> None" "c = (k - dk, j - dj, i - di)"
    | "limiter_fcn usr \<noteq> None" "c = (k + 2 * dk, j + 2 * dj, i + 2 * di)"
    by (auto split: if_splits)
  then show ?thesis
  proof cases
    case 1 then show ?thesis using cells(1) by simp
  next
    case 2 then show ?thesis using cells(2) by simp
  next
    case 3 then show ?thesis using cells(3) w(2) by simp
  next
    case 4 then show ?thesis using cells(4) w(2) by simp
  qed
qed

lemma cell_reads_halo:
  assumes v: "visited info k j i" and w: "1 \<le> w" "limiter_fcn usr \<noteq> None \<Longrightarrow> 2 \<le> w"
    and c: "c \<in> set (cell_reads a_wind info au usr k j i)"
  shows "in_halo info w c"
proof -
  define hx hy hz where "hx = 2.0 / real_of_int (mx info - 1)"
    and "hy = 2.0 / real_of_int (my info - 1)" and "hz = 2.0 / real_of_int (mz info)"
  define F where "F = (\<lambda>q. if q < 2 \<and> k < zs info then []
      else face_reads a_wind info au usr (hx / 2.0) (hy / 2.0) (hz / 2.0)
             (-1.0 + real_of_int i * hx) (-1.0 + real_of_int j * hy)
             (-1.0 + (real_of_int k + 0.5) * hz) k j i q)"
  have "set (cell_reads a_wind info au usr k j i)
        \<subseteq> set (nonadvective_reads info k j i) \<union> set (F 0) \<union> set (F 1) \<union> set (F 2)"
    unfolding cell_reads_def Let_def F_def hx_def hy_def hz_def by auto
  with c consider "c \<in> set (nonadvective_reads info k j i)"
    | "c \<in> set (F 0)" | "c \<in> set (F 1)" | "c \<in> set (F 2)"
    by blast
  then show ?thesis
  proof cases
    case 1
    then show ?thesis by (rule nonadvective_reads_halo [OF v w(1)])
  next
    case 2
    then have "\<not> (0 < (2::int) \<and> k < zs info)"
      and "c \<in> set (face_reads a_wind info au usr (hx / 2.0) (hy / 2.0) (hz / 2.0)
             (-1.0 + real_of_int i * hx) (-1.0 + real_of_int j * hy)
             (-1.0 + (real_of_int k + 0.5) * hz) k j i 0)"
      by (auto simp: F_def split: if_splits)
    then show ?thesis
      using face_reads_halo [OF v w, where q = 0] by simp
  next
    case 3
    then have "\<not> (1 < (2::int) \<and> k < zs info)"
      and "c \<in> set (face_reads a_wind info au usr (hx / 2.0) (hy / 2.0) (hz / 2.0)
             (-1.0 + real_of_int i * hx) (-1.0 + real_of_int j * hy)
             (-1.0 + (real_of_int k + 0.5) * hz) k j i 1)"
      by (auto simp: F_def split: if_splits)
    then show ?thesis
      using face_reads_halo [OF v w, where q = 1] by simp
  next
    case 4
    then have "c \<in> set (face_reads a_wind info au usr (hx / 2.0) (hy / 2.0) (hz / 2.0)
             (-1.0 + real_of_int i * hx) (-1.0 + real_of_int j * hy)
             (-1.0 + (real_of_int k + 0.5) * hz) k j i 2)"
      by (auto simp: F_def split: if_splits)
    then show ?thesis
      using face_reads_halo [OF v w, where q = 2] by simp
  qed
qed

text \<open>Entries that are read at the full distance from the owned box.\<close>

lemma reads_beyond_none:
  "visited grid_332 0 1 1 \<and> (-1, 1, 1) \<in> set (cell_reads a_wind grid_332 au usr 0 1 1)
   \<and> \<not> in_halo grid_332 0 (-1, 1, 1)"
  by (simp add: visited_def grid_332_def cell_reads_def nonadvective_reads_def in_halo_def Let_def)

lemma reads_beyond_limiter2:
  assumes "limiter_fcn usr \<noteq> None"
  shows "visited grid_665 4 2 2 \<and> (6, 2, 2) \<in> set (cell_reads wind_down grid_665 au_layers usr 4 2 2)
   \<and> \<not> in_halo grid_665 1 (6, 2, 2)"
  using assms
  by (auto simp: visited_def grid_665_def cell_reads_def nonadvective_reads_def face_reads_def
      in_halo_def Let_def face_offset_def face_wind_def wind_down_def upwind_value_def
      downwind_value_def au_layers_def)

text \<open>
  The lists hold all that is read: a pass gives the same result for two fields that
  agree on the entries of the list.
\<close>

lemma face_flux_reads:
  assumes "\<forall>c \<in> set (face_reads a_wind info au usr halfx halfy halfz x y z k j i q). au' c = au c"
  shows "face_flux a_wind info au' usr halfx halfy halfz x y z k j i q
       = face_flux a_wind info au usr halfx halfy halfz x y z k j i q"
proof -
  obtain dk dj di where off: "face_offset q = (dk, dj, di)"
    by (cases "face_offset q") auto
  let ?a = "face_wind a_wind usr halfx halfy halfz x y z q"
  define deep where "deep = (1 < i \<and> i < mx info - 2 \<and> 1 < j \<and> j < my info - 2)"
  have fold: "(1 < i \<and> i < mx info - 2 \<and> 1 < j \<and> j < my info - 2) = deep"
    by (simp add: deep_def)
  have up: "upwind_value au' ?a k j i q = upwind_value au ?a k j i q"
    using assms
    by (cases "limiter_fcn usr")
      (auto simp: face_reads_def upwind_value_def off Let_def split: if_splits)
  show ?thesis
  proof (cases "limiter_fcn usr")
    case None
    show ?thesis unfolding face_flux_def Let_def up None by simp
  next
    case (Some lf)
    show ?thesis
    proof (cases deep)
      case False
      show ?thesis unfolding face_flux_def Let_def fold up Some using False by simp
    next
      case True
      with assms Some have dn: "downwind_value au' ?a k j i q = downwind_value au ?a k j i q"
        by (auto simp: face_reads_def downwind_value_def off Let_def deep_def split: if_splits)
      show ?thesis
      proof (cases "downwind_value au ?a k j i q = upwind_value au ?a k j i q")
        case eq: True
        show ?thesis
          unfolding face_flux_def Let_def fold up dn Some using eq by simp
      next
        case False
        with assms Some True have far: "far_value au' ?a k j i q = far_value au ?a k j i q"
          by (auto simp: face_reads_def far_value_def off Let_def deep_def split: if_splits)
        show ?thesis unfolding face_flux_def Let_def up dn far by (rule refl)
      qed
    qed
  qed
qed

lemma nonadvective_reads_sound:
  assumes "\<forall>c \<in> set (nonadvective_reads info k j i). au' c = au c"
  shows "nonadvective g_source b_bdry info au' usr hx2 hy2 hz2 x y z k j i aF
       = nonadvective g_source b_bdry info au usr hx2 hy2 hz2 x y z k j i aF"
  using assms
  by (auto simp: nonadvective_def nonadvective_reads_def Let_def)

lemma flux_step_reads:
  assumes "\<not> (q < 2 \<and> k < zs info) \<Longrightarrow>
           \<forall>c \<in> set (face_reads a_wind info au usr halfx halfy halfz x y z k j i q). au' c = au c"
  shows "flux_step a_wind info au' usr hx hy hz halfx halfy halfz x y z k j i q s
       = flux_step a_wind info au usr hx hy hz halfx halfy halfz x y z k j i q s"
proof (cases "q < 2 \<and> k < zs info")
  case True
  then show ?thesis by (cases s) (simp_all add: flux_step_def)
next
  case False
  show ?thesis
    unfolding flux_step_def face_flux_reads [OF assms [OF False]] by (rule refl)
qed

lemma pass_reads:
  assumes "\<forall>c \<in> set (cell_reads a_wind info au usr k j i). au' c = au c"
  shows "pass a_wind g_source b_bdry info au' usr k j i s
       = pass a_wind g_source b_bdry info au usr k j i s"
proof (cases s)
  case (Inl e)
  then show ?thesis by (simp add: pass_def cell_step_def)
next
  case (Inr aF)
  have na: "\<forall>c \<in> set (nonadvective_reads info k j i). au' c = au c"
    using assms by (simp add: cell_reads_def Let_def)
  note n = nonadvective_reads_sound [OF na]
  show ?thesis
  proof (cases "i = mx info - 1 \<or> j = my info - 1")
    case True
    then show ?thesis
      by (simp add: pass_def cell_step_def Inr Let_def n)
  next
    case False
    have fr: "\<forall>c \<in> set (face_reads a_wind info au usr (grid_hx info / 2.0) (grid_hy info / 2.0)
                 (grid_hz info / 2.0) (-1.0 + real_of_int i * grid_hx info) (cell_y info j)
                 (cell_z info k) k j i q). au' c = au c"
      if "q = 0 \<or> q = 1 \<or> q = 2" "\<not> (q < 2 \<and> k < zs info)" for q
      using assms False that
      by (auto simp: cell_reads_def Let_def grid_hx_def grid_hy_def grid_hz_def cell_y_def
          cell_z_def)
    have loop: "for_loop 0 3
          (flux_step a_wind info au' usr (grid_hx info) (grid_hy info) (grid_hz info)
             (grid_hx info / 2.0) (grid_hy info / 2.0) (grid_hz info / 2.0)
             (-1.0 + real_of_int i * grid_hx info) (cell_y info j) (cell_z info k) k j i) t
        = for_loop 0 3
          (flux_step a_wind info au usr (grid_hx info) (grid_hy info) (grid_hz info)
             (grid_hx info / 2.0) (grid_hy info / 2.0) (grid_hz info / 2.0)
             (-1.0 + real_of_int i * grid_hx info) (cell_y info j) (cell_z info k) k j i) t" for t
    proof (rule for_loop_cong_range)
      fix q :: int and s'
      assume "0 \<le> q" "q < 3"
      then have q: "q = 0 \<or> q = 1 \<or> q = 2" by auto
      show "flux_step a_wind info au' usr (grid_hx info) (grid_hy info) (grid_hz info)
             (grid_hx info / 2.0) (grid_hy info / 2.0) (grid_hz info / 2.0)
             (-1.0 + real_of_int i * grid_hx info) (cell_y info j) (cell_z info k) k j i q s'
          = flux_step a_wind info au usr (grid_hx info) (grid_hy info) (grid_hz info)
             (grid_hx info / 2.0) (grid_hy info / 2.0) (grid_hz info / 2.0)
             (-1.0 + real_of_int i * grid_hx info) (cell_y info j) (cell_z info k) k j i q s'"
        by (rule flux_step_reads) (rule fr [OF q])
    qed
    show ?thesis
      unfolding pass_def cell_step_def Inr Let_def sum.case n if_not_P [OF False]
      by (rule loop)
  qed
qed

subsection \<open>The options and the grid\<close>

lemma main_setup_Inr:
  assumes "main_setup opt_eps (Some l) = Inr st"
  shows "da_s st = (case l of NONE \<Rightarrow> 1 | CENTERED \<Rightarrow> 2 | VANLEER \<Rightarrow> 2)"
    and "user_limiter_fcn st = limiterptr l"
  using assms
  by (cases l; auto simp: main_setup_def limiterptr_def Let_def split: if_splits option.splits)+

text \<open>
  Claim C8, as the claim states it, fails for the centered limiter: the claim gives it
  a halo of one cell, and \<^verbatim>\<open>main\<close> creates the grid with stencil width two for every
  limiter that has a function, the centered one among them.
\<close>

theorem centered_halo_is_two:
  "main_setup None (Some CENTERED)
   = Inr \<lparr>user_eps = 1, user_limiter_fcn = Some centered, da_M = 6, da_N = 6, da_P = 5,
          da_dof = 1, da_s = 2\<rparr>"
  by (simp add: main_setup_def limiterptr_def)

text \<open>
  Claim C8, amended: the centered limiter belongs with van Leer. The stencil width the
  grid is created with is one cell when the limiter is none and two cells when it is
  centered or van Leer, and it equals the reach of the residual routine, the largest
  distance from the owned box of an entry of the field that a pass of the routine
  reads: every entry read lies in the owned box with its ghost cells of that width
  (the halo covers the reach), and some entry read does not with one cell less. The
  reach is two for every limiter with a function, because the routine reads the far
  upwind value before it calls the function. The entries listed as read are all that
  a pass uses of the field.
\<close>

theorem halo_width_equals_reach:
  assumes "main_setup opt_eps (Some l) = Inr st"
    and "limiter_fcn usr = user_limiter_fcn st"
  shows "da_s st = (case l of NONE \<Rightarrow> 1 | CENTERED \<Rightarrow> 2 | VANLEER \<Rightarrow> 2)
       \<and> (\<forall>a_wind info au k j i c.
            visited info k j i \<and> c \<in> set (cell_reads a_wind info au usr k j i)
            \<longrightarrow> in_halo info (da_s st) c)
       \<and> (\<exists>a_wind info au k j i c.
            visited info k j i \<and> c \<in> set (cell_reads a_wind info au usr k j i)
            \<and> \<not> in_halo info (da_s st - 1) c)
       \<and> (\<forall>a_wind g_source b_bdry info au au' k j i s.
            (\<forall>c \<in> set (cell_reads a_wind info au usr k j i). au' c = au c)
            \<longrightarrow> pass a_wind g_source b_bdry info au' usr k j i s
              = pass a_wind g_source b_bdry info au usr k j i s)
       \<and> FormFunctionLocal wnd src bdr grd fld res usr
         = for_loop (zs grd - 1) (zs grd + zm grd)
             (\<lambda>k. for_loop (ys grd) (ys grd + ym grd)
                (\<lambda>j. for_loop (xs grd) (xs grd + xm grd)
                   (pass wnd src bdr grd fld usr k j)))
             (Inr (clear_F grd res))"
proof -
  note facts = main_setup_Inr [OF assms(1)]
  have lim: "limiter_fcn usr = limiterptr l"
    using assms(2) facts(2) by simp
  have w1: "1 \<le> da_s st"
    using facts(1) by (cases l) simp_all
  have w2: "2 \<le> da_s st" if "limiter_fcn usr \<noteq> None"
    using facts(1) that lim by (cases l) (simp_all add: limiterptr_def)
  have within: "\<forall>a_wind info au k j i c.
            visited info k j i \<and> c \<in> set (cell_reads a_wind info au usr k j i)
            \<longrightarrow> in_halo info (da_s st) c"
    using cell_reads_halo [OF _ w1 w2] by blast
  have beyond: "\<exists>a_wind info au k j i c.
            visited info k j i \<and> c \<in> set (cell_reads a_wind info au usr k j i)
            \<and> \<not> in_halo info (da_s st - 1) c"
  proof (cases "limiter_fcn usr")
    case None
    with lim have "l = NONE" by (cases l) (simp_all add: limiterptr_def)
    with facts(1) have "da_s st - 1 = 0" by simp
    with reads_beyond_none [of wind_top au_ones usr] show ?thesis by metis
  next
    case (Some lf)
    with lim have "l \<noteq> NONE" by (cases l) (simp_all add: limiterptr_def)
    with facts(1) have "da_s st - 1 = 1" by (cases l) simp_all
    with reads_beyond_limiter2 [of usr] Some show ?thesis by (metis option.distinct(1))
  qed
  have sound: "\<forall>a_wind g_source b_bdry info au au' k j i s.
            (\<forall>c \<in> set (cell_reads a_wind info au usr k j i). au' c = au c)
            \<longrightarrow> pass a_wind g_source b_bdry info au' usr k j i s
              = pass a_wind g_source b_bdry info au usr k j i s"
    using pass_reads by blast
  note nest = FormFunctionLocal_pass [of wnd src bdr grd fld res usr]
  from facts(1) within beyond sound nest show ?thesis by blast
qed

theorem halo_width_equals_reach_witness:
  "main_setup None (Some CENTERED)
     = Inr \<lparr>user_eps = 1, user_limiter_fcn = Some centered, da_M = 6, da_N = 6, da_P = 5,
            da_dof = 1, da_s = 2\<rparr>
   \<and> limiter_fcn ctx_centered = Some centered
   \<and> visited grid_665 4 2 2
   \<and> (6, 2, 2) \<in> set (cell_reads wind_down grid_665 au_layers ctx_centered 4 2 2)
   \<and> in_halo grid_665 2 (6, 2, 2)
   \<and> \<not> in_halo grid_665 1 (6, 2, 2)
   \<and> pass wind_down g_zero b_zero grid_665 (au_layers((7, 2, 2) := 5)) ctx_centered 4 2 2
        (Inr au_ones)
      = pass wind_down g_zero b_zero grid_665 au_layers ctx_centered 4 2 2 (Inr au_ones)"
proof -
  let ?st = "\<lparr>user_eps = 1, user_limiter_fcn = Some centered, da_M = 6, da_N = 6, da_P = 5,
            da_dof = 1, da_s = 2\<rparr>"
  have st_eq: "main_setup None (Some CENTERED) = Inr ?st"
    by (simp add: main_setup_def limiterptr_def)
  have lim: "limiter_fcn ctx_centered = user_limiter_fcn ?st"
    by (simp add: ctx_centered_def)
  have rd: "visited grid_665 4 2 2
      \<and> (6, 2, 2) \<in> set (cell_reads wind_down grid_665 au_layers ctx_centered 4 2 2)
      \<and> \<not> in_halo grid_665 1 (6, 2, 2)"
    by (rule reads_beyond_limiter2) (simp add: ctx_centered_def)
  have same: "\<forall>c \<in> set (cell_reads wind_down grid_665 au_layers ctx_centered 4 2 2).
      (au_layers((7, 2, 2) := 5)) c = au_layers c"
    by (simp add: grid_665_def cell_reads_def nonadvective_reads_def face_reads_def Let_def
        face_offset_def face_wind_def wind_down_def upwind_value_def downwind_value_def
        au_layers_def ctx_centered_def)
  note hw = halo_width_equals_reach [OF st_eq lim, of wind_down g_zero b_zero grid_665 au_layers
      au_ones]
  from hw
  have "\<forall>a_wind info au k j i c.
            visited info k j i \<and> c \<in> set (cell_reads a_wind info au ctx_centered k j i)
            \<longrightarrow> in_halo info (da_s ?st) c"
    by blast
  with rd have a: "in_halo grid_665 (da_s ?st) (6, 2, 2)" by blast
  from hw
  have "\<forall>a_wind g_source b_bdry info au au' k j i s.
            (\<forall>c \<in> set (cell_reads a_wind info au ctx_centered k j i). au' c = au c)
            \<longrightarrow> pass a_wind g_source b_bdry info au' ctx_centered k j i s
              = pass a_wind g_source b_bdry info au ctx_centered k j i s"
    by blast
  with same
  have b: "pass wind_down g_zero b_zero grid_665 (au_layers((7, 2, 2) := 5)) ctx_centered 4 2 2
        (Inr au_ones)
      = pass wind_down g_zero b_zero grid_665 au_layers ctx_centered 4 2 2 (Inr au_ones)"
    by blast
  from st_eq lim rd a b show ?thesis by simp
qed

text \<open>
  Claim C9. A diffusivity \<open>eps \<le> 0\<close> is rejected with an error when the options are
  processed, before any grid is created: no set-up is produced. For \<open>eps > 0\<close>, and for
  the default, no error is raised; and the residual routine always returns its array.
\<close>

theorem config_error:
  "(eps' \<le> 0 \<longrightarrow> main_setup (Some eps') opt_limiter = Inl 1)
   \<and> (0 < eps' \<longrightarrow> (\<exists>st. main_setup (Some eps') opt_limiter = Inr st \<and> user_eps st = eps'))
   \<and> (\<exists>st. main_setup None opt_limiter = Inr st \<and> user_eps st = 1)
   \<and> (\<exists>aF'. FormFunctionLocal a_wind g_source b_bdry info au aF usr = Inr aF')"
  using FormFunctionLocal_no_error [of a_wind g_source b_bdry info au aF usr]
  by (simp add: main_setup_def Let_def no_error_def)

theorem config_error_witness:
  "(-1::real) \<le> 0 \<and> main_setup (Some (-1)) (Some VANLEER) = Inl 1
   \<and> (0::real) < 1/2 \<and> (\<exists>st. main_setup (Some (1/2)) None = Inr st \<and> user_eps st = 1/2)"
  using config_error [of "-1" "Some VANLEER"] config_error [of "1/2" None]
  by simp

subsection \<open>The residual at concrete inputs\<close>

lemmas eval_defs = FormFunctionLocal_def clear_F_def cell_step_def flux_step_def accumulate_def
  face_flux_def nonadvective_def face_wind_def upwind_value_def downwind_value_def far_value_def
  face_offset_def fdiv_def layer_a_def residual_at_def for_loop.simps Let_def

text \<open>
  Claim C1 says that the flux through every face, the top faces (\<open>q = 2\<close>) among them,
  is added to the residual of the cell on one side and subtracted from the residual of
  the cell on the other side. The routine does not do so for the top faces. On the
  grid of 3 by 3 by 2 cells with a wind of speed one through the top faces and a field
  that is \<open>1\<close> in the layer \<open>k = 0\<close> and \<open>3\<close> in the layers \<open>k = 1\<close> and \<open>k = -1\<close>, the
  fluxes through the top and the bottom face of the cell \<open>(0, 1, 1)\<close> are \<open>1\<close> and \<open>3\<close>
  and \<open>hz = 1\<close>, so that they would change the residual by \<open>1 - 3\<close>; the residual the
  routine leaves is \<open>0\<close>, its diffusive part alone.
\<close>

theorem top_flux_not_accumulated:
  "face_flux wind_top grid_332 au_layers ctx_upwind (1/2) (1/2) (1/2) 0 0 (-1/2) 0 1 1 2 = Inr 1
   \<and> face_flux wind_top grid_332 au_layers ctx_upwind (1/2) (1/2) (1/2) 0 0 (-3/2) (-1) 1 1 2 = Inr 3
   \<and> residual_at (FormFunctionLocal wind_top g_zero b_zero grid_332 au_layers au_ones ctx_upwind) (0, 1, 1) = Inr 0"
  by (simp add: eval_defs grid_332_def ctx_upwind_def wind_top_def g_zero_def b_zero_def
      au_layers_def au_ones_def)

text \<open>
  Claim C2 says that the residual is the same whether the grid is assembled as one
  owned box or as several. The routine gives different values: on the grid of 4 by 3
  by 2 cells with the constant field \<open>1\<close> and the wind of the layer problem, the
  residual at the cell \<open>(0, 1, 2)\<close> is \<open>17/4\<close> when one box owns the grid, and \<open>23/4\<close>
  from the box that owns the columns \<open>i = 2, 3\<close> when the grid is split along x: the flux
  through the west face of the cell, a face between the two boxes, is lost.
\<close>

theorem partition_changes_residual:
  "residual_at (FormFunctionLocal wind_east g_zero b_zero grid_432 au_ones au_ones ctx_upwind) (0, 1, 2)
     = Inr (17/4)
   \<and> residual_at (FormFunctionLocal wind_east g_zero b_zero grid_432_right au_ones au_ones ctx_upwind) (0, 1, 2)
     = Inr (23/4)"
  by (simp add: eval_defs grid_432_def grid_432_right_def ctx_upwind_def wind_east_def g_zero_def
      b_zero_def au_ones_def)

text \<open>
  Claim C3 says that the residual at a Dirichlet boundary cell with \<open>j = 0\<close> is exactly
  \<open>au[k][j][i] - 0\<close>. On the grid of 3 by 3 by 2 cells with the constant field \<open>1\<close> and
  the wind of the layer problem, that value is \<open>1\<close> at the cell \<open>(0, 0, 1)\<close>, and the
  routine leaves \<open>2\<close>: the flux through the east face of the cell is added to it.
\<close>

theorem boundary_cell_keeps_flux:
  "au_ones (0, 0, 1) - 0 = 1
   \<and> residual_at (FormFunctionLocal wind_east g_zero b_zero grid_332 au_ones au_ones ctx_upwind) (0, 0, 1)
     = Inr 2"
  by (simp add: eval_defs grid_332_def ctx_upwind_def wind_east_def g_zero_def b_zero_def au_ones_def)

subsection \<open>The exact solution at a concrete input\<close>

lemma layer_u_z_one: "layer_u x y 1 e = 0"
  by (simp add: layer_u_def FF_def Let_def)

lemma layer_u_claimed_pos: "0 < layer_u 1 (-3/5) (-2/5) 1"
proof -
  have val: "layer_u 1 (-3/5) (-2/5) 1 = sin (4 * pi / 5) * sin (3 * pi / 10)"
    by (simp add: layer_u_def Let_def EE_def FF_def mult.commute)
  have "0 < sin (4 * pi / 5)"
    by (rule sin_gt_zero) (use pi_gt_zero in simp_all)
  moreover have "0 < sin (3 * pi / 10)"
    by (rule sin_gt_zero) (use pi_gt_zero in simp_all)
  ultimately show ?thesis
    unfolding val by (rule mult_pos_pos)
qed

text \<open>
  Claim C4 says that \<^verbatim>\<open>FormLayerUExact\<close> writes to every owned cell the exact solution
  at the coordinates of that cell, with \<open>z\<close> derived from \<open>k\<close>. On the default grid of
  6 by 6 by 5 cells with \<open>eps = 1\<close>, the exact solution at the coordinates of the cell
  \<open>(1, 1, 5)\<close> is positive, and the routine writes \<open>0\<close> there, whatever the
  uninitialised \<open>j\<close> held: it computes \<open>z\<close> from \<open>j\<close>, which is \<open>6\<close> after the first
  pass, and so evaluates the solution at \<open>z = 1\<close>.
\<close>

theorem exact_solution_wrong_coordinates:
  "FormLayerUExact j0 grid_665 ctx_centered au_ones (1, 1, 5) = 0
   \<and> 0 < layer_u (-1 + 5 * (2 / (6 - 1))) (-1 + 1 * (2 / (6 - 1))) (-1 + (1 + 0.5) * (2 / 5)) (eps ctx_centered)"
  using layer_u_claimed_pos
  by (simp add: FormLayerUExact_def grid_665_def ctx_centered_def for_loop.simps for_loop_var.simps
     Let_def layer_u_z_one)

end
